theory Spec2Isabelle
  imports Main
begin

section \<open>Python strings\<close>

text \<open>
  A Python \<open>str\<close> is modelled as a \<open>string\<close>; each \<open>char\<close> stands for one code point
  below 256. Text with code points above 255 is outside the model.
\<close>

definition ord :: "char \<Rightarrow> nat" where
  "ord c = of_char c"

definition LF :: char where
  "LF = CHR 0x0A"

text \<open>\<open>str.isspace\<close> on one character: the code points below 256 that Python treats as whitespace.\<close>

definition isspace :: "char \<Rightarrow> bool" where
  "isspace c = (ord c \<in> {9, 10, 11, 12, 13, 28, 29, 30, 31, 32, 133, 160})"

text \<open>\<open>s.strip()\<close>: leading and trailing whitespace removed.\<close>

definition strip :: "string \<Rightarrow> string" where
  "strip s = rev (dropWhile isspace (rev (dropWhile isspace s)))"

text \<open>\<open>s.split()\<close> without a separator: the maximal runs of non-whitespace characters.\<close>

function split_ws :: "string \<Rightarrow> string list" where
  "split_ws s =
     (let t = dropWhile isspace s
      in if t = [] then []
         else takeWhile (\<lambda>c. \<not> isspace c) t # split_ws (dropWhile (\<lambda>c. \<not> isspace c) t))"
  by pat_completeness auto

lemma dropWhile_shorter:
  "xs \<noteq> [] \<Longrightarrow> \<not> P (hd xs) \<Longrightarrow> length (dropWhile (\<lambda>c. \<not> P c) xs) < length xs"
  by (cases xs) (auto simp: le_imp_less_Suc length_dropWhile_le)

termination split_ws
proof (relation "measure length", goal_cases)
  case 1
  show ?case by simp
next
  case (2 s t)
  have "t \<noteq> [] \<Longrightarrow> \<not> isspace (hd t)"
    unfolding 2(1) using hd_dropWhile by blast
  with 2 have "length (dropWhile (\<lambda>c. \<not> isspace c) t) < length t"
    by (intro dropWhile_shorter) auto
  also have "length t \<le> length s"
    unfolding 2(1) by (rule length_dropWhile_le)
  finally show ?case by simp
qed

declare split_ws.simps [simp del]

text \<open>\<open>s.split(sep)\<close> for a one-character separator; the result is never empty.\<close>

fun str_split :: "char \<Rightarrow> string \<Rightarrow> string list" where
  "str_split sep [] = [[]]"
| "str_split sep (c # cs) =
     (if c = sep then [] # str_split sep cs
      else (case str_split sep cs of
              [] \<Rightarrow> [[c]]
            | p # ps \<Rightarrow> (c # p) # ps))"

text \<open>\<open>sep.join(xs)\<close>.\<close>

fun str_join :: "string \<Rightarrow> string list \<Rightarrow> string" where
  "str_join sep [] = []"
| "str_join sep [x] = x"
| "str_join sep (x # y # ys) = x @ sep @ str_join sep (y # ys)"

text \<open>\<open>s.startswith(p)\<close>.\<close>

definition startswith :: "string \<Rightarrow> string \<Rightarrow> bool" where
  "startswith s p = (take (length p) s = p)"

text \<open>
  \<open>s.find(sub)\<close>: the index of the first occurrence of \<open>sub\<close>; \<open>None\<close> stands for
  Python's \<open>-1\<close>.
\<close>

fun str_find :: "string \<Rightarrow> string \<Rightarrow> nat option" where
  "str_find sub [] = (if sub = [] then Some 0 else None)"
| "str_find sub (c # cs) =
     (if startswith (c # cs) sub then Some 0
      else map_option Suc (str_find sub cs))"

text \<open>\<open>sub in s\<close>.\<close>

definition str_contains :: "string \<Rightarrow> string \<Rightarrow> bool" where
  "str_contains sub s = (str_find sub s \<noteq> None)"

text \<open>
  \<open>s.upper()\<close> and \<open>s.lower()\<close>, character by character. Sharp s (223) becomes \<open>SS\<close>.
  Micro sign (181) and y with diaeresis (255) have upper-case forms above 255 and are
  left as they are; their images are not ASCII either way.
\<close>

definition upper_char :: "char \<Rightarrow> string" where
  "upper_char c =
     (let n = ord c
      in if 97 \<le> n \<and> n \<le> 122 then [char_of (n - 32)]
         else if n = 223 then ''SS''
         else if 224 \<le> n \<and> n \<le> 254 \<and> n \<noteq> 247 then [char_of (n - 32)]
         else [c])"

definition str_upper :: "string \<Rightarrow> string" where
  "str_upper s = concat (map upper_char s)"

definition lower_char :: "char \<Rightarrow> char" where
  "lower_char c =
     (let n = ord c
      in if 65 \<le> n \<and> n \<le> 90 then char_of (n + 32)
         else if 192 \<le> n \<and> n \<le> 222 \<and> n \<noteq> 215 then char_of (n + 32)
         else c)"

definition str_lower :: "string \<Rightarrow> string" where
  "str_lower s = map lower_char s"

text \<open>\<open>str(n)\<close> for an integer.\<close>

definition digit_char :: "nat \<Rightarrow> char" where
  "digit_char d = char_of (48 + d)"

function str_nat :: "nat \<Rightarrow> string" where
  "str_nat n = (if n < 10 then [digit_char n] else str_nat (n div 10) @ [digit_char (n mod 10)])"
  by pat_completeness auto

termination str_nat
  by (relation "measure id") auto

declare str_nat.simps [simp del]

definition str_int :: "int \<Rightarrow> string" where
  "str_int i = (if i < 0 then CHR ''-'' # str_nat (nat (- i)) else str_nat (nat i))"

section \<open>Exceptions\<close>

text \<open>
  An exception is its class and its message; \<open>DriverError\<close> is any exception raised by
  the database driver, \<open>ValidationError\<close> one raised by the URL validation of the
  protocol library. All of them are subclasses of Python's \<open>Exception\<close>.
\<close>

datatype exn =
    ValueError string
  | RuntimeError string
  | TypeError string
  | IndexError string
  | DriverError string
  | ValidationError string

text \<open>\<open>str(e)\<close>.\<close>

fun str_exn :: "exn \<Rightarrow> string" where
  "str_exn (ValueError m) = m"
| "str_exn (RuntimeError m) = m"
| "str_exn (TypeError m) = m"
| "str_exn (IndexError m) = m"
| "str_exn (DriverError m) = m"
| "str_exn (ValidationError m) = m"

section \<open>Regular expressions\<close>

text \<open>
  The fragment of Python's \<open>re\<close> that \<open>validate_table_name\<close> uses: character classes
  given by ranges, sequence, alternative and repetition, matched with derivatives.
\<close>

datatype regex =
    Never
  | Eps
  | Cls "(char \<times> char) list"
  | Seq regex regex
  | Alt regex regex
  | Star regex

definition OneOrMore :: "regex \<Rightarrow> regex" where
  "OneOrMore r = Seq r (Star r)"

definition Optional :: "regex \<Rightarrow> regex" where
  "Optional r = Alt r Eps"

definition in_class :: "(char \<times> char) list \<Rightarrow> char \<Rightarrow> bool" where
  "in_class rs c = list_ex (\<lambda>(lo, hi). ord lo \<le> ord c \<and> ord c \<le> ord hi) rs"

fun nullable :: "regex \<Rightarrow> bool" where
  "nullable Never = False"
| "nullable Eps = True"
| "nullable (Cls rs) = False"
| "nullable (Seq r s) = (nullable r \<and> nullable s)"
| "nullable (Alt r s) = (nullable r \<or> nullable s)"
| "nullable (Star r) = True"

fun deriv :: "char \<Rightarrow> regex \<Rightarrow> regex" where
  "deriv c Never = Never"
| "deriv c Eps = Never"
| "deriv c (Cls rs) = (if in_class rs c then Eps else Never)"
| "deriv c (Seq r s) =
     (if nullable r then Alt (Seq (deriv c r) s) (deriv c s) else Seq (deriv c r) s)"
| "deriv c (Alt r s) = Alt (deriv c r) (deriv c s)"
| "deriv c (Star r) = Seq (deriv c r) (Star r)"

text \<open>The whole of \<open>s\<close> is a word of \<open>r\<close>.\<close>

fun fullmatch :: "regex \<Rightarrow> string \<Rightarrow> bool" where
  "fullmatch r [] = nullable r"
| "fullmatch r (c # cs) = fullmatch (deriv c r) cs"

text \<open>
  \<open>re.match('^' r '$', s)\<close> without flags, as a truth value. Python's \<open>$\<close> matches at
  the end of the string and also just before a newline that ends the string.
\<close>

definition re_match_anchored :: "regex \<Rightarrow> string \<Rightarrow> bool" where
  "re_match_anchored r s =
     (fullmatch r s \<or> (s \<noteq> [] \<and> last s = LF \<and> fullmatch r (butlast s)))"

section \<open>Identifier sanitizer\<close>

text \<open>The class \<open>[a-zA-Z0-9_]\<close> and the pattern \<open>[a-zA-Z0-9_]+(\.[a-zA-Z0-9_]+)?\<close>.\<close>

definition ident_class :: regex where
  "ident_class =
     Cls [(CHR ''a'', CHR ''z''), (CHR ''A'', CHR ''Z''), (CHR ''0'', CHR ''9''),
          (CHR ''_'', CHR ''_'')]"

definition table_name_re :: regex where
  "table_name_re =
     Seq (OneOrMore ident_class)
         (Optional (Seq (Cls [(CHR ''.'', CHR ''.'')]) (OneOrMore ident_class)))"

definition validate_table_name :: "string \<Rightarrow> exn + string" where
  "validate_table_name table_name =
     (if \<not> re_match_anchored table_name_re table_name
      then Inl (ValueError (''Invalid table name: '' @ table_name))
      else (let parts = str_split CHR ''.'' table_name
            in if length parts = 2
               then Inr (''['' @ parts ! 0 @ ''].['' @ parts ! 1 @ '']'')
               else Inr (''['' @ table_name @ '']'')))"

section \<open>Statement classifier\<close>

text \<open>The text after the first \<open>*/\<close> of a string, if there is one.\<close>

fun after_close :: "string \<Rightarrow> string option" where
  "after_close [] = None"
| "after_close [c] = None"
| "after_close (c # d # cs) =
     (if c = CHR ''*'' \<and> d = CHR ''/'' then Some cs else after_close (d # cs))"

text \<open>
  \<open>re.sub(r'/\*.*?\*/', '', query, flags=re.DOTALL)\<close>: scanning from the left, every
  \<open>/*\<close> that is followed by a \<open>*/\<close> is removed up to and including the first such
  \<open>*/\<close>; a \<open>/*\<close> that is never closed stays.
\<close>

function re_sub_block_comments :: "string \<Rightarrow> string" where
  "re_sub_block_comments [] = []"
| "re_sub_block_comments [c] = [c]"
| "re_sub_block_comments (c # d # cs) =
     (if c = CHR ''/'' \<and> d = CHR ''*''
      then (case after_close cs of
              Some rest \<Rightarrow> re_sub_block_comments rest
            | None \<Rightarrow> c # re_sub_block_comments (d # cs))
      else c # re_sub_block_comments (d # cs))"
  by pat_completeness auto

lemma after_close_shorter: "after_close cs = Some rest \<Longrightarrow> length rest < length cs"
  by (induction cs arbitrary: rest rule: after_close.induct) (auto split: if_splits)

termination re_sub_block_comments
  by (relation "measure length") (auto dest: after_close_shorter)

text \<open>The body of the loop over the lines: cut the line at the first \<open>--\<close>.\<close>

definition cut_line_comment :: "string \<Rightarrow> string" where
  "cut_line_comment line =
     (case str_find ''--'' line of
        Some comment_pos \<Rightarrow> take comment_pos line
      | None \<Rightarrow> line)"

text \<open>The lines of a text, each cut at its comment.\<close>

definition code_lines :: "string \<Rightarrow> string list" where
  "code_lines s = map cut_line_comment (str_split LF s)"

definition is_select_query :: "string \<Rightarrow> bool" where
  "is_select_query query =
     (let query_cleaned = re_sub_block_comments query;
          lines = str_split LF query_cleaned;
          cleaned_lines = map cut_line_comment lines;
          query_cleaned = str_join [LF] cleaned_lines;
          first_word = (if strip query_cleaned \<noteq> [] then hd (split_ws (strip query_cleaned))
                        else [])
      in str_upper first_word = ''SELECT'')"

subsection \<open>The classifier as the specification words it\<close>

text \<open>
  The definitions of this subsection follow the specification, not the source: block
  comments are removed by a scanner that is either inside a comment or outside of one,
  line comments by a scanner over the whole text that skips from \<open>--\<close> to the end of the
  line, and the first token is the first maximal run of non-whitespace characters (trimming
  the end of the text does not change it).
\<close>

datatype classification = ReadOnly | Mutating

fun spec_strip_block :: "bool \<Rightarrow> string \<Rightarrow> string" where
  "spec_strip_block inside [] = []"
| "spec_strip_block inside [c] = (if inside then [] else [c])"
| "spec_strip_block inside (c # d # cs) =
     (if inside
      then (if c = CHR ''*'' \<and> d = CHR ''/'' then spec_strip_block False cs
            else spec_strip_block True (d # cs))
      else if c = CHR ''/'' \<and> d = CHR ''*'' \<and> str_contains ''*/'' cs
           then spec_strip_block True cs
           else c # spec_strip_block False (d # cs))"

fun spec_strip_line :: "bool \<Rightarrow> string \<Rightarrow> string" where
  "spec_strip_line skipping [] = []"
| "spec_strip_line skipping (c # cs) =
     (if c = LF then c # spec_strip_line False cs
      else if skipping then spec_strip_line True cs
      else if startswith (c # cs) ''--'' then spec_strip_line True cs
      else c # spec_strip_line False cs)"

definition spec_first_token :: "string \<Rightarrow> string" where
  "spec_first_token s = takeWhile (\<lambda>c. \<not> isspace c) (dropWhile isspace s)"

definition spec_stripped :: "string \<Rightarrow> string" where
  "spec_stripped sql = strip (spec_strip_line False (spec_strip_block False sql))"

definition spec_classify :: "string \<Rightarrow> classification" where
  "spec_classify sql =
     (if str_upper (spec_first_token (spec_stripped sql)) = ''SELECT''
      then ReadOnly else Mutating)"

subsection \<open>The identifier syntax as the specification words it\<close>

text \<open>
  Letters, digits and underscore, with an optional single schema qualifier separated by
  a dot: \<open>name\<close> or \<open>schema.name\<close>.
\<close>

definition spec_ident_char :: "char \<Rightarrow> bool" where
  "spec_ident_char c =
     (c \<in> set ''abcdefghijklmnopqrstuvwxyzABCDEFGHIJKLMNOPQRSTUVWXYZ0123456789_'')"

definition spec_name :: "string \<Rightarrow> bool" where
  "spec_name n = (n \<noteq> [] \<and> list_all spec_ident_char n)"

definition spec_identifier :: "string \<Rightarrow> bool" where
  "spec_identifier s =
     (case str_split CHR ''.'' s of
        [n] \<Rightarrow> spec_name n
      | [a, b] \<Rightarrow> spec_name a \<and> spec_name b
      | _ \<Rightarrow> False)"

section \<open>Configuration\<close>

text \<open>The process environment, read through \<open>os.getenv\<close>.\<close>

type_synonym environ = "string \<Rightarrow> string option"

definition getenv :: "environ \<Rightarrow> string \<Rightarrow> string \<Rightarrow> string" where
  "getenv env k dflt = (case env k of None \<Rightarrow> dflt | Some v \<Rightarrow> v)"

text \<open>A value that may be \<open>None\<close>, as an f-string prints it, and as a condition tests it.\<close>

definition fmt_optional :: "string option \<Rightarrow> string" where
  "fmt_optional v = (case v of None \<Rightarrow> ''None'' | Some x \<Rightarrow> x)"

definition truthy :: "string option \<Rightarrow> bool" where
  "truthy v = (case v of None \<Rightarrow> False | Some x \<Rightarrow> x \<noteq> [])"

definition get_connection_string :: "environ \<Rightarrow> exn + string" where
  "get_connection_string env =
     (let server = getenv env ''MSSQL_SERVER'' ''localhost'';
          database = env ''MSSQL_DATABASE'';
          user = env ''MSSQL_USER'';
          password = env ''MSSQL_PASSWORD'';
          port = getenv env ''MSSQL_PORT'' ''1433'';
          env_driver = env ''MSSQL_DRIVER'';
          driver = (if truthy env_driver then ''{'' @ fmt_optional env_driver @ ''}''
                    else ''{ODBC Driver 17 for SQL Server}'');
          conn_str = ''DRIVER='' @ driver @ '';SERVER='' @ server @ '','' @ port
                     @ '';DATABASE='' @ fmt_optional database;
          encryption =
            (if str_lower (getenv env ''MSSQL_ENCRYPT'' ''false'') = ''true''
             then '';Encrypt=yes'' @
                  (if str_lower (getenv env ''MSSQL_TRUST_SERVER_CERTIFICATE'' ''false'') = ''true''
                   then '';TrustServerCertificate=yes'' else [])
             else [])
      in if str_lower (getenv env ''MSSQL_WINDOWS_AUTH'' ''false'') = ''true''
         then Inr (conn_str @ '';Trusted_Connection=yes'' @ encryption)
         else if \<not> truthy user \<or> \<not> truthy password
         then Inl (ValueError ''MSSQL_USER and MSSQL_PASSWORD are required for SQL Authentication'')
         else Inr (conn_str @ '';UID='' @ fmt_optional user @ '';PWD='' @ fmt_optional password
                   @ encryption))"

definition get_command :: "environ \<Rightarrow> string" where
  "get_command env = getenv env ''MSSQL_COMMAND'' ''execute_sql''"

section \<open>The database driver and the server state\<close>

text \<open>
  A cell of a fetched row: a string, an integer, \<open>None\<close>, or a value of any other Python
  type, given by the name of its type and by its \<open>str()\<close> text.
\<close>

datatype cell = StrCell string | IntCell int | NoneCell | OtherCell string string

fun str_cell :: "cell \<Rightarrow> string" where
  "str_cell (StrCell s) = s"
| "str_cell (IntCell i) = str_int i"
| "str_cell NoneCell = ''None''"
| "str_cell (OtherCell ty text) = text"

fun type_name :: "cell \<Rightarrow> string" where
  "type_name (StrCell s) = ''str''"
| "type_name (IntCell i) = ''int''"
| "type_name NoneCell = ''NoneType''"
| "type_name (OtherCell ty text) = ty"

type_synonym row = "cell list"
type_synonym handle = nat
type_synonym cur = nat

text \<open>
  The external collaborators, over an opaque state \<open>'w\<close> of the engine and the network:
  every call of the database driver either raises or returns, and changes that state.
  \<open>cur_description\<close> gives the column names (the first component of each entry of
  \<open>cursor.description\<close>), or \<open>None\<close> when the statement produced no result set.
  \<open>any_url\<close> is the URL validation that the protocol library applies when a
  \<open>Resource\<close> is built.
\<close>

record 'w deps =
  db_connect :: "string \<Rightarrow> 'w \<Rightarrow> (exn + handle) \<times> 'w"
  conn_cursor :: "handle \<Rightarrow> 'w \<Rightarrow> (exn + cur) \<times> 'w"
  conn_commit :: "handle \<Rightarrow> 'w \<Rightarrow> (exn + unit) \<times> 'w"
  conn_close :: "handle \<Rightarrow> 'w \<Rightarrow> (exn + unit) \<times> 'w"
  cur_execute :: "cur \<Rightarrow> string \<Rightarrow> 'w \<Rightarrow> (exn + unit) \<times> 'w"
  cur_fetchall :: "cur \<Rightarrow> 'w \<Rightarrow> (exn + row list) \<times> 'w"
  cur_description :: "cur \<Rightarrow> 'w \<Rightarrow> string list option"
  cur_rowcount :: "cur \<Rightarrow> 'w \<Rightarrow> int"
  cur_close :: "cur \<Rightarrow> 'w \<Rightarrow> (exn + unit) \<times> 'w"
  any_url :: "string \<Rightarrow> exn + string"

text \<open>
  The calls made to the driver, in order, each with its outcome: the handle a
  \<open>connect\<close> returned, or whether the call returned at all.
\<close>

datatype event =
    Connect string "handle option"
  | Cursor handle bool
  | Execute cur string bool
  | Fetchall cur bool
  | CursorClose cur bool
  | Commit handle bool
  | Close handle bool

text \<open>
  The state of the process: \<open>conn\<close> is the class attribute \<open>DBConnection._conn\<close>,
  \<open>world\<close> the state of the engine, \<open>trace\<close> the driver calls made so far.
\<close>

record 'w server =
  conn :: "handle option"
  world :: 'w
  trace :: "event list"

type_synonym ('w, 'a) io = "'w server \<Rightarrow> (exn + 'a) \<times> 'w server"

definition ret :: "'a \<Rightarrow> ('w, 'a) io" where
  "ret x = (\<lambda>s. (Inr x, s))"

definition raise :: "exn \<Rightarrow> ('w, 'a) io" where
  "raise e = (\<lambda>s. (Inl e, s))"

definition lift :: "exn + 'a \<Rightarrow> ('w, 'a) io" where
  "lift r = (\<lambda>s. (r, s))"

definition bnd :: "('w, 'a) io \<Rightarrow> ('a \<Rightarrow> ('w, 'b) io) \<Rightarrow> ('w, 'b) io" where
  "bnd m f = (\<lambda>s. case m s of (Inl e, s') \<Rightarrow> (Inl e, s') | (Inr x, s') \<Rightarrow> f x s')"

text \<open>\<open>try: m  except Exception as e: h e\<close>.\<close>

definition try_except :: "('w, 'a) io \<Rightarrow> (exn \<Rightarrow> ('w, 'a) io) \<Rightarrow> ('w, 'a) io" where
  "try_except m h = (\<lambda>s. case m s of (Inl e, s') \<Rightarrow> h e s' | (Inr x, s') \<Rightarrow> (Inr x, s'))"

definition driver_call :: "(exn + 'a \<Rightarrow> event) \<Rightarrow> ('w \<Rightarrow> (exn + 'a) \<times> 'w) \<Rightarrow> ('w, 'a) io" where
  "driver_call ev f =
     (\<lambda>s. case f (world s) of (r, w) \<Rightarrow> (r, s\<lparr>world := w, trace := trace s @ [ev r]\<rparr>))"

definition returned :: "exn + 'a \<Rightarrow> bool" where
  "returned r = (case r of Inl e \<Rightarrow> False | Inr x \<Rightarrow> True)"

definition pyodbc_connect :: "'w deps \<Rightarrow> string \<Rightarrow> ('w, handle) io" where
  "pyodbc_connect drv conn_str =
     driver_call (\<lambda>r. Connect conn_str (case r of Inl e \<Rightarrow> None | Inr h \<Rightarrow> Some h))
       (db_connect drv conn_str)"

definition cursor :: "'w deps \<Rightarrow> handle \<Rightarrow> ('w, cur) io" where
  "cursor drv h = driver_call (\<lambda>r. Cursor h (returned r)) (conn_cursor drv h)"

definition commit :: "'w deps \<Rightarrow> handle \<Rightarrow> ('w, unit) io" where
  "commit drv h = driver_call (\<lambda>r. Commit h (returned r)) (conn_commit drv h)"

definition close :: "'w deps \<Rightarrow> handle \<Rightarrow> ('w, unit) io" where
  "close drv h = driver_call (\<lambda>r. Close h (returned r)) (conn_close drv h)"

definition execute :: "'w deps \<Rightarrow> cur \<Rightarrow> string \<Rightarrow> ('w, unit) io" where
  "execute drv c q = driver_call (\<lambda>r. Execute c q (returned r)) (cur_execute drv c q)"

definition fetchall :: "'w deps \<Rightarrow> cur \<Rightarrow> ('w, row list) io" where
  "fetchall drv c = driver_call (\<lambda>r. Fetchall c (returned r)) (cur_fetchall drv c)"

definition cursor_close :: "'w deps \<Rightarrow> cur \<Rightarrow> ('w, unit) io" where
  "cursor_close drv c = driver_call (\<lambda>r. CursorClose c (returned r)) (cur_close drv c)"

text \<open>
  \<open>[desc[0] for desc in cursor.description]\<close>: iterating over \<open>None\<close> raises.
\<close>

definition columns_of :: "'w deps \<Rightarrow> cur \<Rightarrow> ('w, string list) io" where
  "columns_of drv c =
     (\<lambda>s. case cur_description drv c (world s) of
             None \<Rightarrow> (Inl (TypeError (CHR 0x27 # ''NoneType'' @ CHR 0x27 # '' object is not iterable'')), s)
           | Some columns \<Rightarrow> (Inr columns, s))"

definition rowcount :: "'w deps \<Rightarrow> cur \<Rightarrow> ('w, int) io" where
  "rowcount drv c = (\<lambda>s. (Inr (cur_rowcount drv c (world s)), s))"

definition set_conn :: "handle \<Rightarrow> ('w, unit) io" where
  "set_conn h = (\<lambda>s. (Inr (), s\<lparr>conn := Some h\<rparr>))"

section \<open>Connection manager\<close>

text \<open>The liveness check of \<open>get_connection\<close>: the body of its inner \<open>try\<close>.\<close>

definition probe :: "'w deps \<Rightarrow> handle \<Rightarrow> ('w, unit) io" where
  "probe drv h =
     bnd (cursor drv h) (\<lambda>c.
     bnd (execute drv c ''SELECT 1'') (\<lambda>_.
     bnd (fetchall drv c) (\<lambda>_.
     cursor_close drv c)))"

text \<open>\<open>cls._conn = pyodbc.connect(conn_str)\<close>, then the handle now stored.\<close>

definition reconnect :: "'w deps \<Rightarrow> string \<Rightarrow> ('w, handle) io" where
  "reconnect drv conn_str =
     bnd (pyodbc_connect drv conn_str) (\<lambda>h.
     bnd (set_conn h) (\<lambda>_.
     ret h))"

definition get_connection :: "'w deps \<Rightarrow> environ \<Rightarrow> ('w, handle) io" where
  "get_connection drv env =
     bnd (lift (get_connection_string env)) (\<lambda>conn_str.
     (\<lambda>s. (case conn s of
              None \<Rightarrow> reconnect drv conn_str
            | Some h \<Rightarrow>
                try_except
                  (bnd (probe drv h) (\<lambda>_. ret h))
                  (\<lambda>e. bnd (try_except (close drv h) (\<lambda>_. ret ())) (\<lambda>_.
                        reconnect drv conn_str))) s))"

section \<open>Request handlers\<close>

text \<open>A loop whose body may raise: it stops at the first exception.\<close>

fun for_each :: "('a \<Rightarrow> exn + 'b) \<Rightarrow> 'a list \<Rightarrow> exn + 'b list" where
  "for_each f [] = Inr []"
| "for_each f (x # xs) =
     (case f x of
        Inl e \<Rightarrow> Inl e
      | Inr y \<Rightarrow> (case for_each f xs of Inl e \<Rightarrow> Inl e | Inr ys \<Rightarrow> Inr (y # ys)))"

text \<open>\<open>row[0]\<close>.\<close>

definition first_cell :: "row \<Rightarrow> exn + cell" where
  "first_cell r = (case r of [] \<Rightarrow> Inl (IndexError ''tuple index out of range'') | c # cs \<Rightarrow> Inr c)"

text \<open>
  The items of a list handed to \<open>str.join\<close> must be strings; \<open>i\<close> is the position of
  the first item in that list.
\<close>

fun join_items :: "nat \<Rightarrow> cell list \<Rightarrow> exn + string list" where
  "join_items i [] = Inr []"
| "join_items i (StrCell s # cs) =
     (case join_items (Suc i) cs of Inl e \<Rightarrow> Inl e | Inr ss \<Rightarrow> Inr (s # ss))"
| "join_items i (c # cs) =
     Inl (TypeError (''sequence item '' @ str_nat i @ '': expected str instance, ''
                     @ type_name c @ '' found''))"

subsection \<open>\<open>list_resources\<close>\<close>

datatype resource = Resource string string string string

definition catalog_query :: string where
  "catalog_query =
     [LF] @ ''            SELECT TABLE_NAME '' @
     [LF] @ ''            FROM INFORMATION_SCHEMA.TABLES '' @
     [LF] @ ''            WHERE TABLE_TYPE = '' @ [CHR 0x27] @ ''BASE TABLE'' @ [CHR 0x27] @
     [LF] @ ''        ''"

text \<open>The body of the loop over the tables; the fields are uri, name, mimeType, description.\<close>

definition make_resource :: "'w deps \<Rightarrow> row \<Rightarrow> exn + resource" where
  "make_resource drv table =
     (case first_cell table of
        Inl e \<Rightarrow> Inl e
      | Inr t \<Rightarrow>
          (case any_url drv (''mssql://'' @ str_cell t @ ''/data'') of
             Inl e \<Rightarrow> Inl e
           | Inr u \<Rightarrow> Inr (Resource u (''Table: '' @ str_cell t) ''text/plain''
                                      (''Data in table: '' @ str_cell t))))"

text \<open>The body of the \<open>try\<close> of \<open>list_resources\<close>.\<close>

definition list_resources_body :: "'w deps \<Rightarrow> environ \<Rightarrow> ('w, resource list) io" where
  "list_resources_body drv env =
     bnd (get_connection drv env) (\<lambda>h.
     bnd (cursor drv h) (\<lambda>c.
     bnd (execute drv c catalog_query) (\<lambda>_.
     bnd (fetchall drv c) (\<lambda>tables.
     bnd (lift (for_each (make_resource drv) tables)) (\<lambda>resources.
     bnd (cursor_close drv c) (\<lambda>_.
     ret resources))))))"

definition list_resources :: "'w deps \<Rightarrow> environ \<Rightarrow> ('w, resource list) io" where
  "list_resources drv env = try_except (list_resources_body drv env) (\<lambda>e. ret [])"

subsection \<open>\<open>read_resource\<close>\<close>

text \<open>The rendering shared by both paths that return rows.\<close>

definition render_rows :: "string list \<Rightarrow> row list \<Rightarrow> string" where
  "render_rows columns rows =
     (let result = map (\<lambda>row. str_join '','' (map str_cell row)) rows
      in str_join [LF] (str_join '','' columns # result))"


subsection \<open>\<open>call_tool\<close>\<close>

datatype text_content = TextContent string string

text \<open>The body of the \<open>try\<close> of \<open>call_tool\<close>.\<close>

definition call_tool_body :: "'w deps \<Rightarrow> environ \<Rightarrow> string \<Rightarrow> ('w, text_content list) io" where
  "call_tool_body drv env query =
     bnd (get_connection drv env) (\<lambda>h.
     bnd (cursor drv h) (\<lambda>c.
     bnd (execute drv c query) (\<lambda>_.
     if is_select_query query \<and> str_contains ''INFORMATION_SCHEMA.TABLES'' (str_upper query)
     then bnd (fetchall drv c) (\<lambda>tables.
          bnd (lift (for_each first_cell tables)) (\<lambda>names.
          bnd (cursor_close drv c) (\<lambda>_.
          bnd (lift (join_items 1 names)) (\<lambda>items.
          ret [TextContent ''text'' (str_join [LF] (''Tables_found'' # items))]))))
     else if is_select_query query
     then bnd (columns_of drv c) (\<lambda>columns.
          bnd (fetchall drv c) (\<lambda>rows.
          bnd (cursor_close drv c) (\<lambda>_.
          ret [TextContent ''text'' (render_rows columns rows)])))
     else bnd (commit drv h) (\<lambda>_.
          bnd (rowcount drv c) (\<lambda>affected_rows.
          bnd (cursor_close drv c) (\<lambda>_.
          ret [TextContent ''text''
                 (''Query executed successfully. Rows affected: '' @ str_int affected_rows)]))))))"

definition call_tool ::
  "'w deps \<Rightarrow> environ \<Rightarrow> string \<Rightarrow> (string \<Rightarrow> string option) \<Rightarrow> ('w, text_content list) io" where
  "call_tool drv env name arguments =
     (if name \<noteq> get_command env then raise (ValueError (''Unknown tool: '' @ name))
      else (case arguments ''query'' of
              None \<Rightarrow> raise (ValueError ''Query is required'')
            | Some query \<Rightarrow>
                if query = [] then raise (ValueError ''Query is required'')
                else try_except (call_tool_body drv env query)
                       (\<lambda>e. ret [TextContent ''text''
                                  (''Error executing query: '' @ str_exn e)])))"

section \<open>Observations on the trace\<close>

text \<open>The statements submitted to the engine, in order.\<close>

fun statements :: "event list \<Rightarrow> string list" where
  "statements [] = []"
| "statements (Execute c q b # evs) = q # statements evs"
| "statements (ev # evs) = statements evs"

text \<open>The connection strings of the attempts to connect, in order.\<close>

fun connects :: "event list \<Rightarrow> string list" where
  "connects [] = []"
| "connects (Connect cs r # evs) = cs # connects evs"
| "connects (ev # evs) = connects evs"

text \<open>
  The handles that are live after a sequence of driver calls: a handle is live from the
  \<open>connect\<close> that returned it until \<open>close\<close> is called on it, whether that call
  returns or raises (closing is best effort).
\<close>

fun track :: "handle set \<Rightarrow> event \<Rightarrow> handle set" where
  "track L (Connect cs (Some h)) = insert h L"
| "track L (Close h b) = L - {h}"
| "track L ev = L"

definition live_handles :: "event list \<Rightarrow> handle set" where
  "live_handles evs = foldl track {} evs"

text \<open>The driver calls that neither open nor close a connection.\<close>

fun quiet :: "event \<Rightarrow> bool" where
  "quiet (Connect cs k) = False"
| "quiet (Close h b) = False"
| "quiet ev = True"

text \<open>The handle that the manager holds, as a set.\<close>

definition held :: "'w server \<Rightarrow> handle set" where
  "held s = (case conn s of None \<Rightarrow> {} | Some h \<Rightarrow> {h})"

text \<open>The driver calls of a liveness check that succeeds, and those of one that fails.\<close>

definition probe_ok :: "handle \<Rightarrow> cur \<Rightarrow> event list" where
  "probe_ok h c =
     [Cursor h True, Execute c ''SELECT 1'' True, Fetchall c True, CursorClose c True]"

definition probe_failed :: "handle \<Rightarrow> event list \<Rightarrow> bool" where
  "probe_failed h evs =
     (evs = [Cursor h False] \<or>
      (\<exists>c. evs = [Cursor h True, Execute c ''SELECT 1'' False] \<or>
           evs = [Cursor h True, Execute c ''SELECT 1'' True, Fetchall c False] \<or>
           evs = [Cursor h True, Execute c ''SELECT 1'' True, Fetchall c True,
                  CursorClose c False]))"

text \<open>
  At most one handle is live at every moment of a trace, and a live handle is the one
  the manager holds.
\<close>

definition at_most_one :: "handle set \<Rightarrow> bool" where
  "at_most_one L = (\<forall>a \<in> L. \<forall>b \<in> L. a = b)"

definition one_live_handle :: "'w server \<Rightarrow> bool" where
  "one_live_handle s =
     ((\<forall>n. at_most_one (live_handles (take n (trace s)))) \<and> live_handles (trace s) \<subseteq> held s)"


section \<open>A small engine for concrete runs\<close>

text \<open>
  A stand-in for the driver: it knows the tables \<open>Users\<close> (two rows) and \<open>Orders\<close>
  (150 rows), hands out connection numbers, and can be unreachable.
\<close>

record demo_db =
  open_conns :: "nat list"
  next_conn :: nat
  reachable :: bool
  last_stmt :: string

definition users_rows :: "row list" where
  "users_rows = [[IntCell 1, StrCell ''Alice''], [IntCell 2, StrCell ''Bob'']]"

definition orders_rows :: "row list" where
  "orders_rows = map (\<lambda>i. [IntCell (int i)]) [1 ..< 151]"

definition tables_query :: string where
  "tables_query = ''SELECT TABLE_NAME, TABLE_TYPE FROM INFORMATION_SCHEMA.TABLES''"

definition demo_result :: "string \<Rightarrow> (string list \<times> row list) option" where
  "demo_result q =
     (if q = ''SELECT 1'' then Some ([[]], [[IntCell 1]])
      else if q = ''SELECT * FROM Users'' then Some ([''Id'', ''Name''], users_rows)
      else if q = ''SELECT TOP 100 * FROM [Users]'' then Some ([''Id'', ''Name''], take 100 users_rows)
      else if q = ''SELECT TOP 100 * FROM [Orders]'' then Some ([''Id''], take 100 orders_rows)
      else if q = catalog_query then Some ([''TABLE_NAME''], [[StrCell ''Users''], [StrCell ''Orders'']])
      else if q = tables_query
      then Some ([''TABLE_NAME'', ''TABLE_TYPE''],
                 [[StrCell ''Users'', StrCell ''BASE TABLE''],
                  [StrCell ''Orders'', StrCell ''BASE TABLE'']])
      else None)"

definition demo_known :: "string \<Rightarrow> bool" where
  "demo_known q = (demo_result q \<noteq> None \<or> q = ''DELETE FROM Users WHERE Id=1'')"

definition closed_error :: exn where
  "closed_error = DriverError ''Attempt to use a closed connection.''"

definition demo :: "demo_db deps" where
  "demo =
     \<lparr> db_connect = (\<lambda>cs w.
         if reachable w
         then (Inr (next_conn w),
               w\<lparr>open_conns := next_conn w # open_conns w, next_conn := Suc (next_conn w)\<rparr>)
         else (Inl (DriverError ''Login timeout expired''), w)),
       conn_cursor = (\<lambda>h w.
         if h \<in> set (open_conns w) then (Inr h, w) else (Inl closed_error, w)),
       conn_commit = (\<lambda>h w.
         if h \<in> set (open_conns w) then (Inr (), w) else (Inl closed_error, w)),
       conn_close = (\<lambda>h w.
         if h \<in> set (open_conns w) then (Inr (), w\<lparr>open_conns := removeAll h (open_conns w)\<rparr>)
         else (Inl closed_error, w)),
       cur_execute = (\<lambda>c q w.
         if c \<notin> set (open_conns w) then (Inl closed_error, w)
         else if demo_known q then (Inr (), w\<lparr>last_stmt := q\<rparr>)
         else (Inl (DriverError ''Invalid object name''), w)),
       cur_fetchall = (\<lambda>c w.
         case demo_result (last_stmt w) of
           None \<Rightarrow> (Inl (DriverError ''No results.  Previous SQL was not a query.''), w)
         | Some (columns, rows) \<Rightarrow> (Inr rows, w)),
       cur_description = (\<lambda>c w. map_option fst (demo_result (last_stmt w))),
       cur_rowcount = (\<lambda>c w. if last_stmt w = ''DELETE FROM Users WHERE Id=1'' then 1 else - 1),
       cur_close = (\<lambda>c w. (Inr (), w)),
       any_url = (\<lambda>u. Inr u) \<rparr>"

definition demo_env :: environ where
  "demo_env =
     map_of [(''MSSQL_SERVER'', ''db1''), (''MSSQL_DATABASE'', ''shop''),
             (''MSSQL_USER'', ''sa''), (''MSSQL_PASSWORD'', ''secret'')]"

text \<open>The process at start, one with a live connection, and one whose connection was lost.\<close>

definition fresh :: "demo_db server" where
  "fresh =
     \<lparr> conn = None,
       world = \<lparr> open_conns = [], next_conn = 0, reachable = True, last_stmt = [] \<rparr>,
       trace = [] \<rparr>"

definition connected :: "demo_db server" where
  "connected =
     \<lparr> conn = Some 0,
       world = \<lparr> open_conns = [0], next_conn = 1, reachable = True, last_stmt = [] \<rparr>,
       trace = [Connect ''cs'' (Some 0)] \<rparr>"

definition dropped :: "demo_db server" where
  "dropped =
     \<lparr> conn = Some 0,
       world = \<lparr> open_conns = [], next_conn = 1, reachable = True, last_stmt = [] \<rparr>,
       trace = [Connect ''cs'' (Some 0)] \<rparr>"

text \<open>A process whose database server cannot be reached.\<close>

definition offline :: "demo_db server" where
  "offline =
     \<lparr> conn = None,
       world = \<lparr> open_conns = [], next_conn = 0, reachable = False, last_stmt = [] \<rparr>,
       trace = [] \<rparr>"

definition query_args :: "string \<Rightarrow> string \<Rightarrow> string option" where
  "query_args q = map_of [(''query'', q)]"

section \<open>Facts about the classifier\<close>

lemma startswith_two: "startswith (c # d # cs) [a, b] = (c = a \<and> d = b)"
  by (simp add: startswith_def)

lemma startswith_short: "startswith [c] [a, b] = False" "startswith [] [a, b] = False"
  by (simp_all add: startswith_def)

lemma contains_close: "str_contains ''*/'' cs = (after_close cs \<noteq> None)"
  by (induction cs rule: after_close.induct)
     (simp_all add: str_contains_def startswith_two startswith_short)

lemma strip_block_inside:
  "spec_strip_block True cs =
     (case after_close cs of Some rest \<Rightarrow> spec_strip_block False rest | None \<Rightarrow> [])"
  by (induction cs rule: after_close.induct) simp_all

lemma strip_block_eq: "spec_strip_block False s = re_sub_block_comments s"
  by (induction s rule: re_sub_block_comments.induct)
     (auto simp: contains_close strip_block_inside split: option.splits)

lemma str_split_nonempty: "str_split sep s \<noteq> []"
  by (induction s) (auto split: list.splits)

lemma str_split_hd: "hd (str_split sep s) = takeWhile (\<lambda>c. c \<noteq> sep) s"
proof (induction s)
  case Nil
  show ?case by simp
next
  case (Cons c cs)
  then show ?case
    using str_split_nonempty [of sep cs] by (cases "str_split sep cs") auto
qed

lemma str_split_Cons:
  "c \<noteq> sep \<Longrightarrow> str_split sep (c # cs) = (c # hd (str_split sep cs)) # tl (str_split sep cs)"
  using str_split_nonempty [of sep cs] by (auto split: list.splits)

lemma str_join_Cons: "str_join sep ((c # x) # xs) = c # str_join sep (x # xs)"
  by (cases xs) simp_all

lemma str_join_Nil: "xs \<noteq> [] \<Longrightarrow> str_join sep ([] # xs) = sep @ str_join sep xs"
  by (cases xs) simp_all

lemma cut_line_comment_Cons:
  "cut_line_comment (c # p) = (if startswith (c # p) ''--'' then [] else c # cut_line_comment p)"
  by (simp add: cut_line_comment_def split: option.splits)

lemma startswith_line:
  "c \<noteq> LF \<Longrightarrow> startswith (c # takeWhile (\<lambda>c. c \<noteq> LF) cs) ''--'' = startswith (c # cs) ''--''"
  by (cases cs) (auto simp: startswith_def LF_def)

lemma strip_line_eq:
  "spec_strip_line False s = str_join [LF] (code_lines s) \<and>
   spec_strip_line True s = str_join [LF] ([] # tl (code_lines s))"
proof (induction s)
  case Nil
  show ?case by (simp add: code_lines_def cut_line_comment_def)
next
  case (Cons c cs)
  have ne: "code_lines cs \<noteq> []"
    by (simp add: code_lines_def str_split_nonempty)
  show ?case
  proof (cases "c = LF")
    case True
    then show ?thesis using Cons ne
      by (simp add: code_lines_def cut_line_comment_def str_join_Nil)
  next
    case False
    have split: "code_lines (c # cs) =
        cut_line_comment (c # hd (str_split LF cs)) # tl (code_lines cs)"
      using False str_split_nonempty [of LF cs]
      by (cases "str_split LF cs") (simp_all add: code_lines_def)
    have hd: "code_lines cs = cut_line_comment (hd (str_split LF cs)) # tl (code_lines cs)"
      using str_split_nonempty [of LF cs] by (cases "str_split LF cs") (simp_all add: code_lines_def)
    show ?thesis
    proof (cases "startswith (c # cs) ''--''")
      case True
      then show ?thesis using False Cons split
        by (simp add: cut_line_comment_Cons str_split_hd startswith_line)
    next
      case nosw: False
      have "code_lines (c # cs) =
          (c # cut_line_comment (hd (str_split LF cs))) # tl (code_lines cs)"
        using nosw False
        by (simp add: split cut_line_comment_Cons str_split_hd startswith_line)
      then have "str_join [LF] (code_lines (c # cs)) =
          c # str_join [LF] (cut_line_comment (hd (str_split LF cs)) # tl (code_lines cs))"
        by (simp only: str_join_Cons)
      also have "\<dots> = c # str_join [LF] (code_lines cs)"
        using hd by simp
      finally have "str_join [LF] (code_lines (c # cs)) = c # str_join [LF] (code_lines cs)" .
      then show ?thesis using False nosw Cons split by simp
    qed
  qed
qed

lemma strip_empty: "strip s = [] \<longleftrightarrow> dropWhile isspace s = []"
proof -
  define t where "t = dropWhile isspace s"
  have h: "t \<noteq> [] \<Longrightarrow> \<not> isspace (hd t)"
    unfolding t_def by (rule hd_dropWhile)
  have "strip s = [] \<longleftrightarrow> (\<forall>x\<in>set t. isspace x)"
    by (simp add: strip_def t_def)
  also have "\<dots> \<longleftrightarrow> t = []"
    using h by (cases t) auto
  finally show ?thesis unfolding t_def .
qed

lemma split_ws_hd:
  "dropWhile isspace s \<noteq> [] \<Longrightarrow>
   hd (split_ws s) = takeWhile (\<lambda>c. \<not> isspace c) (dropWhile isspace s)"
  by (subst split_ws.simps) (simp add: Let_def del: dropWhile_eq_Nil_conv)

lemma split_ws_nonempty: "dropWhile isspace s \<noteq> [] \<Longrightarrow> split_ws s \<noteq> []"
  by (subst split_ws.simps) (simp add: Let_def del: dropWhile_eq_Nil_conv)

lemma takeWhile_drop_trailing:
  "takeWhile (\<lambda>c. \<not> P c) (rev (dropWhile P (rev t))) = takeWhile (\<lambda>c. \<not> P c) t"
proof (induction t rule: rev_induct)
  case Nil
  show ?case by simp
next
  case (snoc x xs)
  show ?case
  proof (cases "P x")
    case True
    have "takeWhile (\<lambda>c. \<not> P c) (xs @ [x]) = takeWhile (\<lambda>c. \<not> P c) xs"
      using True by (induction xs) auto
    with True snoc show ?thesis by simp
  next
    case False
    then show ?thesis by simp
  qed
qed

lemma strip_no_lead: "dropWhile isspace (strip s) = strip s"
proof (cases "strip s")
  case Nil
  then show ?thesis by simp
next
  case (Cons c cs)
  let ?t = "dropWhile isspace s"
  have t: "?t \<noteq> []" using Cons strip_empty [of s] by auto
  then have h: "\<not> isspace (hd ?t)" using hd_dropWhile [of isspace s] by blast
  have "\<exists>u w. ?t = u @ w \<and> strip s = u"
    unfolding strip_def 
    by (metis rev_append rev_rev_ident takeWhile_dropWhile_id)
  then obtain u w where uw: "?t = u @ w" "strip s = u" by blast
  with Cons have "hd ?t = c" by auto
  with h Cons show ?thesis by simp
qed

lemma first_word_eq:
  "(if strip s \<noteq> [] then hd (split_ws (strip s)) else []) = spec_first_token s"
proof (cases "strip s = []")
  case True
  then have "dropWhile isspace s = []" by (simp only: strip_empty)
  then have "spec_first_token s = []" by (simp only: spec_first_token_def takeWhile.simps)
  with True show ?thesis by simp
next
  case False
  then have "dropWhile isspace (strip s) \<noteq> []" unfolding strip_no_lead .
  then have "hd (split_ws (strip s)) = takeWhile (\<lambda>c. \<not> isspace c) (dropWhile isspace (strip s))"
    by (rule split_ws_hd)
  then have "hd (split_ws (strip s)) = takeWhile (\<lambda>c. \<not> isspace c) (strip s)"
    unfolding strip_no_lead .
  also have "\<dots> = takeWhile (\<lambda>c. \<not> isspace c) (dropWhile isspace s)"
    unfolding strip_def by (rule takeWhile_drop_trailing)
  finally show ?thesis using False by (simp add: spec_first_token_def)
qed

lemma first_token_strip: "spec_first_token (strip s) = spec_first_token s"
  unfolding spec_first_token_def strip_no_lead
  unfolding strip_def by (rule takeWhile_drop_trailing)

section \<open>Facts about the steps of a request\<close>

lemma ret_eq [simp]: "ret x s = (r, s') \<longleftrightarrow> r = Inr x \<and> s' = s"
  by (auto simp: ret_def)

lemma raise_eq [simp]: "raise e s = (r, s') \<longleftrightarrow> r = Inl e \<and> s' = s"
  by (auto simp: raise_def)

lemma lift_eq [simp]: "lift v s = (r, s') \<longleftrightarrow> v = r \<and> s' = s"
  by (auto simp: lift_def)

lemma set_conn_eq [simp]: "set_conn h s = (r, s') \<longleftrightarrow> r = Inr () \<and> s' = s\<lparr>conn := Some h\<rparr>"
  by (auto simp: set_conn_def)

lemma bnd_Inr:
  "bnd m f s = (Inr y, s') \<longleftrightarrow> (\<exists>x s1. m s = (Inr x, s1) \<and> f x s1 = (Inr y, s'))"
  by (auto simp: bnd_def split: prod.splits sum.splits)

lemma bnd_Inl:
  "bnd m f s = (Inl e, s') \<longleftrightarrow>
     m s = (Inl e, s') \<or> (\<exists>x s1. m s = (Inr x, s1) \<and> f x s1 = (Inl e, s'))"
  by (auto simp: bnd_def split: prod.splits sum.splits)

lemma try_except_Inr:
  "try_except m h s = (Inr y, s') \<longleftrightarrow>
     m s = (Inr y, s') \<or> (\<exists>e s1. m s = (Inl e, s1) \<and> h e s1 = (Inr y, s'))"
  by (auto simp: try_except_def split: prod.splits sum.splits)

lemma try_except_Inl:
  "try_except m h s = (Inl e', s') \<longleftrightarrow> (\<exists>e s1. m s = (Inl e, s1) \<and> h e s1 = (Inl e', s'))"
  by (auto simp: try_except_def split: prod.splits sum.splits)

lemma driver_call_eq:
  "driver_call ev f s = (r, s') \<longleftrightarrow>
     (\<exists>w. f (world s) = (r, w) \<and> s' = s\<lparr>world := w, trace := trace s @ [ev r]\<rparr>)"
  by (auto simp: driver_call_def split: prod.splits)

lemma steps:
  "pyodbc_connect drv cs s = (r, s') \<Longrightarrow> conn s' = conn s \<and>
     trace s' = trace s @ [Connect cs (case r of Inl e \<Rightarrow> None | Inr h \<Rightarrow> Some h)]"
  "cursor drv h s = (rc, s') \<Longrightarrow> conn s' = conn s \<and> trace s' = trace s @ [Cursor h (returned rc)]"
  "commit drv h s = (ru, s') \<Longrightarrow> conn s' = conn s \<and> trace s' = trace s @ [Commit h (returned ru)]"
  "close drv h s = (ru, s') \<Longrightarrow> conn s' = conn s \<and> trace s' = trace s @ [Close h (returned ru)]"
  "execute drv c q s = (ru, s') \<Longrightarrow> conn s' = conn s \<and> trace s' = trace s @ [Execute c q (returned ru)]"
  "fetchall drv c s = (rr, s') \<Longrightarrow> conn s' = conn s \<and> trace s' = trace s @ [Fetchall c (returned rr)]"
  "cursor_close drv c s = (ru, s') \<Longrightarrow> conn s' = conn s \<and> trace s' = trace s @ [CursorClose c (returned ru)]"
  by (auto simp: pyodbc_connect_def cursor_def commit_def close_def execute_def fetchall_def
      cursor_close_def driver_call_eq)

lemma columns_of_eq:
  "columns_of drv c s = (r, s') \<Longrightarrow> s' = s"
  by (auto simp: columns_of_def split: option.splits)

lemma returned_simps [simp]: "returned (Inr x) = True" "returned (Inl e) = False"
  by (simp_all add: returned_def)


lemma probe_Inr:
  "probe drv h s = (Inr u, s') \<Longrightarrow>
     \<exists>c. conn s' = conn s \<and> trace s' = trace s @
        [Cursor h True, Execute c ''SELECT 1'' True, Fetchall c True, CursorClose c True]"
  unfolding probe_def bnd_Inr
  by (auto dest!: steps)



lemma probe_Inl:
  "probe drv h s = (Inl e, s') \<Longrightarrow>
     \<exists>evs. conn s' = conn s \<and> trace s' = trace s @ evs \<and> probe_failed h evs"
  unfolding probe_def bnd_Inl bnd_Inr probe_failed_def
  by (elim disjE exE conjE; (drule steps)+) auto

lemma reconnect_cases:
  "reconnect drv cs s = (r, s') \<Longrightarrow>
     \<exists>k. trace s' = trace s @ [Connect cs k] \<and>
         (case k of Some h \<Rightarrow> r = Inr h \<and> conn s' = Some h
                  | None \<Rightarrow> (\<exists>e. r = Inl e) \<and> conn s' = conn s)"
  unfolding reconnect_def
  by (cases r) (auto simp: bnd_Inl bnd_Inr dest!: steps(1))

lemma close_ignored:
  "bnd (try_except (close drv h) (\<lambda>_. ret ())) f s = (r, s') \<Longrightarrow>
     \<exists>b s1. trace s1 = trace s @ [Close h b] \<and> conn s1 = conn s \<and> f () s1 = (r, s')"
  by (cases r) (auto simp: bnd_Inl bnd_Inr try_except_Inr try_except_Inl dest!: steps(4))


lemma get_connection_config_error:
  assumes "get_connection drv env s = (r, s')" and "get_connection_string env = Inl e"
  shows "r = Inl e \<and> s' = s"
  using assms by (cases r) (auto simp: get_connection_def bnd_Inl bnd_Inr)

lemma get_connection_first:
  assumes "get_connection drv env s = (r, s')" and "get_connection_string env = Inr cs"
    and "conn s = None"
  shows "\<exists>k. trace s' = trace s @ [Connect cs k] \<and>
               (case k of Some h' \<Rightarrow> r = Inr h' \<and> conn s' = Some h'
                        | None \<Rightarrow> (\<exists>e. r = Inl e) \<and> conn s' = None)"
proof -
  from assms have "reconnect drv cs s = (r, s')"
    by (cases r) (auto simp: get_connection_def bnd_Inl bnd_Inr)
  from reconnect_cases [OF this] assms(3) show ?thesis
    by (auto split: option.splits)
qed

lemma get_connection_again:
  assumes "get_connection drv env s = (r, s')" and "get_connection_string env = Inr cs"
    and "conn s = Some h"
  shows "(\<exists>c. trace s' = trace s @ probe_ok h c \<and> r = Inr h \<and> conn s' = Some h) \<or>
         (\<exists>p b k. probe_failed h p \<and> trace s' = trace s @ p @ [Close h b, Connect cs k] \<and>
               (case k of Some h' \<Rightarrow> r = Inr h' \<and> conn s' = Some h'
                        | None \<Rightarrow> (\<exists>e. r = Inl e) \<and> conn s' = Some h))"
proof -
  from assms have run: "try_except (bnd (probe drv h) (\<lambda>_. ret h))
      (\<lambda>e. bnd (try_except (close drv h) (\<lambda>_. ret ())) (\<lambda>_. reconnect drv cs)) s = (r, s')"
    by (cases r) (auto simp: get_connection_def bnd_Inl bnd_Inr)
  show ?thesis
  proof (cases "probe drv h s")
    case (Pair pr s1)
    show ?thesis
    proof (cases pr)
      case (Inr u)
      with Pair run have "r = Inr h" "s' = s1"
        by (auto simp: try_except_def bnd_def ret_def)
      moreover from probe_Inr Pair Inr obtain c where
        "conn s1 = conn s" "trace s1 = trace s @ probe_ok h c"
        unfolding probe_ok_def by blast
      ultimately show ?thesis using assms(3) by auto
    next
      case (Inl e)
      with Pair run have rest:
        "bnd (try_except (close drv h) (\<lambda>_. ret ())) (\<lambda>_. reconnect drv cs) s1 = (r, s')"
        by (auto simp: try_except_def bnd_def ret_def)
      from probe_Inl Pair Inl obtain p where
        p: "conn s1 = conn s" "trace s1 = trace s @ p" "probe_failed h p" by blast
      from close_ignored [OF rest] obtain b s2 where
        c: "trace s2 = trace s1 @ [Close h b]" "conn s2 = conn s1" "reconnect drv cs s2 = (r, s')"
        by blast
      from reconnect_cases [OF c(3)] obtain k where
        k: "trace s' = trace s2 @ [Connect cs k]"
           "case k of Some h' \<Rightarrow> r = Inr h' \<and> conn s' = Some h'
                    | None \<Rightarrow> (\<exists>e. r = Inl e) \<and> conn s' = conn s2"
        by blast
      have "trace s' = trace s @ p @ [Close h b, Connect cs k]"
        using p c k by simp
      moreover have "case k of Some h' \<Rightarrow> r = Inr h' \<and> conn s' = Some h'
                    | None \<Rightarrow> (\<exists>e. r = Inl e) \<and> conn s' = Some h"
        using k(2) c(2) p(1) assms(3) by (auto split: option.splits)
      ultimately show ?thesis using p(3) by blast
    qed
  qed
qed

section \<open>Facts about the connection manager\<close>

lemma track_quiet: "quiet ev \<Longrightarrow> track L ev = L"
  by (cases ev) auto

lemma foldl_track_quiet: "\<forall>ev \<in> set evs. quiet ev \<Longrightarrow> foldl track L evs = L"
  by (induction evs arbitrary: L) (auto simp: track_quiet)

lemma probe_ok_quiet: "\<forall>ev \<in> set (probe_ok h c). quiet ev"
  by (simp add: probe_ok_def)

lemma probe_failed_quiet: "probe_failed h p \<Longrightarrow> \<forall>ev \<in> set p. quiet ev"
  by (auto simp: probe_failed_def)

lemma live_handles_append: "live_handles (xs @ ys) = foldl track (live_handles xs) ys"
  by (simp add: live_handles_def)

lemma take_quiet: "\<forall>ev \<in> set evs. quiet ev \<Longrightarrow> foldl track L (take m evs) = L"
  by (rule foldl_track_quiet) (auto dest: in_set_takeD)

lemma take_two_more:
  "(m \<le> length p \<and> take m (p @ [a, b]) = take m p) \<or> take m (p @ [a, b]) = p @ [a] \<or>
   take m (p @ [a, b]) = p @ [a, b]"
proof -
  consider "m \<le> length p" | "m = Suc (length p)" | "m \<ge> Suc (Suc (length p))"
    by linarith
  then show ?thesis
  proof cases
    case 1 then show ?thesis by simp
  next
    case 2 then show ?thesis by simp
  next
    case 3 then show ?thesis by simp
  qed
qed

lemma at_most_one_simps [simp]:
  "at_most_one {}" "at_most_one {h}"
  by (simp_all add: at_most_one_def)

lemma at_most_one_subset: "L \<subseteq> {h} \<Longrightarrow> at_most_one L"
  by (auto simp: at_most_one_def)

lemma reopen_step:
  assumes q: "\<forall>ev \<in> set p. quiet ev" and L: "L \<subseteq> {h}"
  shows "foldl track L (p @ [Close h b]) = {}"
    and "foldl track L (p @ [Close h b, Connect cs k]) = (case k of None \<Rightarrow> {} | Some h' \<Rightarrow> {h'})"
proof -
  have 0: "L - {h} = {}" using L by auto
  have 1: "foldl track L p = L" by (rule foldl_track_quiet [OF q])
  show "foldl track L (p @ [Close h b]) = {}"
    by (simp only: foldl_append 1 foldl.simps track.simps 0)
  then show "foldl track L (p @ [Close h b, Connect cs k]) =
      (case k of None \<Rightarrow> {} | Some h' \<Rightarrow> {h'})"
    by (cases k) (simp_all only: foldl_append 1 foldl.simps track.simps 0 option.case)
qed

lemma reopen_prefixes:
  assumes q: "\<forall>ev \<in> set p. quiet ev" and L: "L \<subseteq> {h}"
  shows "at_most_one (foldl track L (take m (p @ [Close h b, Connect cs k])))"
proof -
  from take_two_more [of m p "Close h b" "Connect cs k"]
  show ?thesis
  proof (elim disjE conjE)
    assume "m \<le> length p" and eq: "take m (p @ [Close h b, Connect cs k]) = take m p"
    show ?thesis unfolding eq take_quiet [OF q] by (rule at_most_one_subset [OF L])
  next
    assume eq: "take m (p @ [Close h b, Connect cs k]) = p @ [Close h b]"
    show ?thesis unfolding eq reopen_step(1) [OF q L] by simp
  next
    assume eq: "take m (p @ [Close h b, Connect cs k]) = p @ [Close h b, Connect cs k]"
    show ?thesis unfolding eq reopen_step(2) [OF q L] by (cases k) simp_all
  qed
qed

lemmas reopen_final = reopen_step(2)

lemma invariant_extend:
  assumes inv: "one_live_handle s"
    and tr: "trace s' = trace s @ new"
    and pre: "\<And>m. at_most_one (foldl track (live_handles (trace s)) (take m new))"
    and fin: "foldl track (live_handles (trace s)) new \<subseteq> held s'"
  shows "one_live_handle s'"
  unfolding one_live_handle_def
proof (intro conjI allI)
  fix n
  show "at_most_one (live_handles (take n (trace s')))"
  proof (cases "n \<le> length (trace s)")
    case True
    then show ?thesis using inv by (simp add: tr one_live_handle_def)
  next
    case False
    then show ?thesis using pre [of "n - length (trace s)"]
      by (simp add: tr live_handles_append)
  qed
next
  show "live_handles (trace s') \<subseteq> held s'"
    using fin by (simp add: tr live_handles_append)
qed

lemma get_connection_invariant:
  assumes run: "get_connection drv env s = (r, s')" and inv: "one_live_handle s"
  shows "one_live_handle s'"
proof (cases "get_connection_string env")
  case (Inl e)
  with get_connection_config_error [OF run] inv show ?thesis by simp
next
  case (Inr cs)
  have L: "live_handles (trace s) \<subseteq> held s" using inv by (simp add: one_live_handle_def)
  show ?thesis
  proof (cases "conn s")
    case None
    then have L0: "live_handles (trace s) = {}" using L by (simp add: held_def)
    from get_connection_first [OF run Inr None] obtain k where
      k: "trace s' = trace s @ [Connect cs k]"
         "case k of Some h' \<Rightarrow> r = Inr h' \<and> conn s' = Some h'
                  | None \<Rightarrow> (\<exists>e. r = Inl e) \<and> conn s' = None" by blast
    show ?thesis
    proof (rule invariant_extend [OF inv k(1)])
      fix m
      have "take m [Connect cs k] = [] \<or> take m [Connect cs k] = [Connect cs k]"
        by (cases m) simp_all
      then show "at_most_one (foldl track (live_handles (trace s)) (take m [Connect cs k]))"
        unfolding L0 by (cases k) auto
    next
      show "foldl track (live_handles (trace s)) [Connect cs k] \<subseteq> held s'"
        unfolding L0 using k(2) by (cases k) (simp_all add: held_def)
    qed
  next
    case (Some h)
    then have Lh: "live_handles (trace s) \<subseteq> {h}" using L by (simp add: held_def)
    from get_connection_again [OF run Inr Some]
    show ?thesis
    proof (elim disjE exE conjE)
      fix c assume a: "trace s' = trace s @ probe_ok h c" "r = Inr h" "conn s' = Some h"
      show ?thesis
      proof (rule invariant_extend [OF inv a(1)])
        fix m
        show "at_most_one (foldl track (live_handles (trace s)) (take m (probe_ok h c)))"
          using take_quiet [OF probe_ok_quiet] Lh by (simp add: at_most_one_subset)
      next
        show "foldl track (live_handles (trace s)) (probe_ok h c) \<subseteq> held s'"
          using foldl_track_quiet [OF probe_ok_quiet] Lh a(3) by (simp add: held_def)
      qed
    next
      fix p b k
      assume a: "probe_failed h p" "trace s' = trace s @ p @ [Close h b, Connect cs k]"
        "case k of Some h' \<Rightarrow> r = Inr h' \<and> conn s' = Some h'
                 | None \<Rightarrow> (\<exists>e. r = Inl e) \<and> conn s' = Some h"
      note q = probe_failed_quiet [OF a(1)]
      show ?thesis
      proof (rule invariant_extend [OF inv a(2)])
        fix m
        show "at_most_one (foldl track (live_handles (trace s))
                (take m (p @ [Close h b, Connect cs k])))"
          by (rule reopen_prefixes [OF q Lh])
      next
        show "foldl track (live_handles (trace s)) (p @ [Close h b, Connect cs k]) \<subseteq> held s'"
          unfolding reopen_final [OF q Lh] using a(3) by (cases k) (simp_all add: held_def)
      qed
    qed
  qed
qed

lemma get_connection_Inr:
  assumes "get_connection drv env s = (Inr h, s')"
  shows "conn s' = Some h \<and> (\<exists>cs. get_connection_string env = Inr cs)"
proof (cases "get_connection_string env")
  case (Inl e)
  with get_connection_config_error [OF assms] show ?thesis by simp
next
  case (Inr cs)
  show ?thesis
  proof (cases "conn s")
    case None
    from get_connection_first [OF assms Inr None] Inr show ?thesis
      by (auto split: option.splits)
  next
    case (Some h0)
    from get_connection_again [OF assms Inr Some] Inr show ?thesis
      by (auto split: option.splits)
  qed
qed

lemma get_connection_alive:
  assumes "conn s = Some h" and "get_connection_string env = Inr cs"
    and "probe drv h s = (Inr u, s')"
  shows "get_connection drv env s = (Inr h, s')"
  using assms by (simp add: get_connection_def bnd_def lift_def try_except_def ret_def)

lemma connects_probe_ok [simp]: "connects (probe_ok h c) = []"
  by (simp add: probe_ok_def)

section \<open>Facts about the handlers\<close>

lemma statements_append [simp]: "statements (xs @ ys) = statements xs @ statements ys"
  by (induction xs rule: statements.induct) simp_all



lemma call_tool_valid:
  assumes "name = get_command env" and "arguments ''query'' = Some q" and "q \<noteq> []"
  shows "call_tool drv env name arguments =
         try_except (call_tool_body drv env q)
           (\<lambda>e. ret [TextContent ''text'' (''Error executing query: '' @ str_exn e)])"
  using assms by (simp add: call_tool_def)

lemma call_tool_body_execute_fails:
  assumes "get_connection drv env s = (Inr h, s1)" and "cursor drv h s1 = (Inr c, s2)"
    and "execute drv c q s2 = (Inl e, s3)"
  shows "call_tool_body drv env q s = (Inl e, s3)"
  using assms by (simp add: call_tool_body_def bnd_def)

lemma call_tool_body_fetch_fails:
  assumes "get_connection drv env s = (Inr h, s1)" and "cursor drv h s1 = (Inr c, s2)"
    and "execute drv c q s2 = (Inr (), s3)" and "is_select_query q"
    and "str_contains ''INFORMATION_SCHEMA.TABLES'' (str_upper q) \<or>
         (\<exists>columns. columns_of drv c s3 = (Inr columns, s3))"
    and "fetchall drv c s3 = (Inl e, s4)"
  shows "call_tool_body drv env q s = (Inl e, s4)"
  using assms by (auto simp: call_tool_body_def bnd_def)

lemma call_tool_body_commit_fails:
  assumes "get_connection drv env s = (Inr h, s1)" and "cursor drv h s1 = (Inr c, s2)"
    and "execute drv c q s2 = (Inr (), s3)" and "\<not> is_select_query q"
    and "commit drv h s3 = (Inl e, s4)"
  shows "call_tool_body drv env q s = (Inl e, s4)"
  using assms by (simp add: call_tool_body_def bnd_def)

lemma try_except_value:
  "\<exists>out s'. try_except m (\<lambda>e. ret (f e)) s = (Inr out, s')"
  by (cases "m s") (auto simp: try_except_def ret_def split: sum.splits)




lemma columns_of_Inr:
  "columns_of drv c s = (Inr columns, s') \<Longrightarrow> s' = s \<and> cur_description drv c (world s) = Some columns"
  by (auto simp: columns_of_def split: option.splits)

lemma rowcount_eq:
  "rowcount drv c s = (r, s') \<longleftrightarrow> r = Inr (cur_rowcount drv c (world s)) \<and> s' = s"
  by (auto simp: rowcount_def)

lemma try_except_returns:
  "m s = (Inr x, s') \<Longrightarrow> try_except m h s = (Inr x, s')"
  by (simp add: try_except_def)

lemma demo_valid:
  "''execute_sql'' = get_command demo_env" "query_args q ''query'' = Some q"
  by (simp_all add: get_command_def getenv_def demo_env_def query_args_def)

lemma for_each_all2:
  "for_each f xs = Inr ys \<Longrightarrow> list_all2 (\<lambda>x y. f x = Inr y) xs ys"
  by (induction xs arbitrary: ys) (auto split: sum.splits)

lemma list_resources_caught:
  "list_resources_body drv env s = (Inl e, s') \<Longrightarrow> list_resources drv env s = (Inr [], s')"
  by (simp add: list_resources_def try_except_def ret_def)

lemma list_resources_body_connect_fails:
  "get_connection drv env s = (Inl e, s1) \<Longrightarrow> list_resources_body drv env s = (Inl e, s1)"
  by (simp add: list_resources_body_def bnd_def)

lemma list_resources_body_query_fails:
  assumes "get_connection drv env s = (Inr h, s1)" and "cursor drv h s1 = (Inr c, s2)"
    and "execute drv c catalog_query s2 = (Inl e, s3)"
  shows "list_resources_body drv env s = (Inl e, s3)"
  using assms by (simp add: list_resources_body_def bnd_def)

lemma list_resources_body_run:
  assumes "list_resources_body drv env s = (Inr rs, s')"
  shows "\<exists>h s1 c s2 s3 tables s4.
           get_connection drv env s = (Inr h, s1) \<and>
           cursor drv h s1 = (Inr c, s2) \<and>
           execute drv c catalog_query s2 = (Inr (), s3) \<and>
           fetchall drv c s3 = (Inr tables, s4) \<and>
           cursor_close drv c s4 = (Inr (), s') \<and>
           list_all2 (\<lambda>table r. make_resource drv table = Inr r) tables rs"
proof -
  from assms obtain h s1 c s2 s3 tables s4 where
    run: "get_connection drv env s = (Inr h, s1)" "cursor drv h s1 = (Inr c, s2)"
      "execute drv c catalog_query s2 = (Inr (), s3)" "fetchall drv c s3 = (Inr tables, s4)"
      "for_each (make_resource drv) tables = Inr rs" "cursor_close drv c s4 = (Inr (), s')"
    unfolding list_resources_body_def by (auto simp: bnd_Inr)
  have "get_connection drv env s = (Inr h, s1) \<and>
           cursor drv h s1 = (Inr c, s2) \<and>
           execute drv c catalog_query s2 = (Inr (), s3) \<and>
           fetchall drv c s3 = (Inr tables, s4) \<and>
           cursor_close drv c s4 = (Inr (), s') \<and>
           list_all2 (\<lambda>table r. make_resource drv table = Inr r) tables rs"
    using run for_each_all2 [OF run(5)] by simp
  then show ?thesis by (intro exI)
qed







section \<open>The identifier sanitizer\<close>

text \<open>
  C1. The sanitizer is to accept exactly the strings \<open>name\<close> and \<open>schema.name\<close> over
  letters, digits and underscore, and to fail with \<open>ValueError\<close> on every other string.
  The source does not: the name \<open>Users\<close> followed by a newline is not of that syntax,
  yet it is accepted and bracketed with the newline inside, because \<open>$\<close> of Python's
  \<open>re\<close> also matches before a final newline.
\<close>

theorem validate_table_name_trailing_newline:
  "\<not> spec_identifier (''Users'' @ [LF]) \<and>
   validate_table_name (''Users'' @ [LF]) = Inr (''[Users'' @ [LF] @ '']'')"
  by code_simp

text \<open>
  C10. Every character between the brackets of a successful result is to be a letter,
  a digit or an underscore. The source puts a newline, which is whitespace, inside the
  second pair of brackets for the name \<open>dbo.Users\<close> followed by a newline.
\<close>

theorem validate_table_name_newline_inside:
  "validate_table_name (''dbo.Users'' @ [LF]) = Inr (''[dbo].['' @ (''Users'' @ [LF]) @ '']'') \<and>
   LF \<in> set (''Users'' @ [LF]) \<and> isspace LF \<and> \<not> spec_ident_char LF"
  by code_simp

section \<open>The statement classifier\<close>

text \<open>
  C2. \<open>is_select_query\<close> holds exactly when the first token of the statement, after
  block comments and line comments are removed and whitespace is trimmed, is \<open>SELECT\<close>
  in any case: the source computes the classification that the specification words.
  A statement of which nothing is left after stripping is classified as mutating.
\<close>

theorem classify_refines:
  "(is_select_query q \<longleftrightarrow> spec_classify q = ReadOnly) \<and>
   (\<not> is_select_query q \<longleftrightarrow> spec_classify q = Mutating) \<and>
   (spec_stripped q = [] \<longrightarrow> \<not> is_select_query q)"
proof -
  have "is_select_query q =
        (str_upper (spec_first_token (str_join [LF] (code_lines (re_sub_block_comments q))))
         = ''SELECT'')"
    unfolding is_select_query_def Let_def code_lines_def [symmetric] first_word_eq ..
  then have eq: "is_select_query q = (str_upper (spec_first_token (spec_stripped q)) = ''SELECT'')"
    by (simp add: spec_stripped_def first_token_strip strip_block_eq strip_line_eq)
  have "spec_stripped q = [] \<longrightarrow> \<not> is_select_query q"
    unfolding eq by (simp add: spec_first_token_def str_upper_def)
  with eq show ?thesis
    by (simp add: spec_classify_def)
qed

theorem classify_refines_witness:
  "spec_stripped ''/* SELECT 1 */ -- SELECT 2'' = [] \<and>
   \<not> is_select_query ''/* SELECT 1 */ -- SELECT 2'' \<and>
   spec_classify ''/* SELECT 1 */ -- SELECT 2'' = Mutating"
proof -
  have "spec_stripped ''/* SELECT 1 */ -- SELECT 2'' = []"
    by code_simp
  with classify_refines [of "''/* SELECT 1 */ -- SELECT 2''"] show ?thesis
    by blast
qed

section \<open>The connection manager\<close>

text \<open>
  C5. For every call of \<open>get_connection\<close>, whatever the driver does:
  at most one handle is live at every moment, and it is the stored one, if that held
  before the call; the connection string is computed from the environment of this call
  first, and when that fails nothing else happens; without a stored handle one connection
  is opened with that string; a stored handle is probed first with \<open>SELECT 1\<close>, and
  is returned when the probe succeeds; when the probe fails the handle is closed, whether
  or not closing raises, and a connection is opened with the string of this call, whose
  handle is stored and returned, or whose failure is raised.
\<close>

theorem get_connection_manager:
  assumes run: "get_connection drv env s = (r, s')"
  shows "(one_live_handle s \<longrightarrow> one_live_handle s') \<and>
         (\<forall>e. get_connection_string env = Inl e \<longrightarrow> r = Inl e \<and> s' = s) \<and>
         (\<forall>cs. get_connection_string env = Inr cs \<and> conn s = None \<longrightarrow>
            (\<exists>k. trace s' = trace s @ [Connect cs k] \<and>
               (case k of Some h' \<Rightarrow> r = Inr h' \<and> conn s' = Some h'
                        | None \<Rightarrow> (\<exists>e. r = Inl e) \<and> conn s' = None))) \<and>
         (\<forall>cs h. get_connection_string env = Inr cs \<and> conn s = Some h \<longrightarrow>
            (\<exists>c. trace s' = trace s @ probe_ok h c \<and> r = Inr h \<and> conn s' = Some h) \<or>
            (\<exists>p b k. probe_failed h p \<and> trace s' = trace s @ p @ [Close h b, Connect cs k] \<and>
               (case k of Some h' \<Rightarrow> r = Inr h' \<and> conn s' = Some h'
                        | None \<Rightarrow> (\<exists>e. r = Inl e) \<and> conn s' = Some h)))"
proof -
  have 1: "one_live_handle s \<longrightarrow> one_live_handle s'"
    using get_connection_invariant [OF run] by (rule impI)
  have 2: "\<forall>e. get_connection_string env = Inl e \<longrightarrow> r = Inl e \<and> s' = s"
    using get_connection_config_error [OF run] by (intro allI impI)
  have 3: "\<forall>cs. get_connection_string env = Inr cs \<and> conn s = None \<longrightarrow>
            (\<exists>k. trace s' = trace s @ [Connect cs k] \<and>
               (case k of Some h' \<Rightarrow> r = Inr h' \<and> conn s' = Some h'
                        | None \<Rightarrow> (\<exists>e. r = Inl e) \<and> conn s' = None))"
  proof (intro allI impI, elim conjE)
    fix cs assume "get_connection_string env = Inr cs" "conn s = None"
    then show "\<exists>k. trace s' = trace s @ [Connect cs k] \<and>
               (case k of Some h' \<Rightarrow> r = Inr h' \<and> conn s' = Some h'
                        | None \<Rightarrow> (\<exists>e. r = Inl e) \<and> conn s' = None)"
      by (rule get_connection_first [OF run])
  qed
  have 4: "\<forall>cs h. get_connection_string env = Inr cs \<and> conn s = Some h \<longrightarrow>
            (\<exists>c. trace s' = trace s @ probe_ok h c \<and> r = Inr h \<and> conn s' = Some h) \<or>
            (\<exists>p b k. probe_failed h p \<and> trace s' = trace s @ p @ [Close h b, Connect cs k] \<and>
               (case k of Some h' \<Rightarrow> r = Inr h' \<and> conn s' = Some h'
                        | None \<Rightarrow> (\<exists>e. r = Inl e) \<and> conn s' = Some h))"
  proof (intro allI impI, elim conjE)
    fix cs h assume "get_connection_string env = Inr cs" "conn s = Some h"
    then show "(\<exists>c. trace s' = trace s @ probe_ok h c \<and> r = Inr h \<and> conn s' = Some h) \<or>
            (\<exists>p b k. probe_failed h p \<and> trace s' = trace s @ p @ [Close h b, Connect cs k] \<and>
               (case k of Some h' \<Rightarrow> r = Inr h' \<and> conn s' = Some h'
                        | None \<Rightarrow> (\<exists>e. r = Inl e) \<and> conn s' = Some h))"
      by (rule get_connection_again [OF run])
  qed
  from 1 2 3 4 show ?thesis by (intro conjI)
qed

theorem get_connection_manager_witness:
  "one_live_handle dropped \<and>
   one_live_handle (snd (get_connection demo demo_env dropped)) \<and>
   fst (get_connection demo demo_env dropped) = Inr 1 \<and>
   conn (snd (get_connection demo demo_env dropped)) = Some 1"
proof -
  have run: "get_connection demo demo_env dropped =
      (fst (get_connection demo demo_env dropped), snd (get_connection demo demo_env dropped))"
    by simp
  have "at_most_one (live_handles (take n (trace dropped)))" for n
    by (cases n) (simp_all add: dropped_def live_handles_def)
  moreover have "live_handles (trace dropped) \<subseteq> held dropped"
    by (simp add: dropped_def live_handles_def held_def)
  ultimately have inv: "one_live_handle dropped"
    by (simp add: one_live_handle_def)
  have res: "fst (get_connection demo demo_env dropped) = Inr 1"
    "conn (snd (get_connection demo demo_env dropped)) = Some 1"
    by code_simp+
  from get_connection_manager [OF run] inv
  have "one_live_handle (snd (get_connection demo demo_env dropped))"
    by blast
  with inv res show ?thesis by simp
qed

text \<open>
  C8. When a call of \<open>get_connection\<close> has returned a handle and the liveness check of
  that handle succeeds at the next call, the next call returns the same handle, keeps it
  stored, makes only the driver calls of the check and does not connect.
\<close>

theorem get_connection_reuses:
  assumes first: "get_connection drv env s = (Inr h, s1)"
    and alive: "probe drv h s1 = (Inr (), s2)"
  shows "get_connection drv env s1 = (Inr h, s2) \<and> conn s2 = Some h \<and>
         (\<exists>c. trace s2 = trace s1 @ probe_ok h c) \<and>
         connects (drop (length (trace s1)) (trace s2)) = []"
proof -
  from get_connection_Inr [OF first] obtain cs where
    stored: "conn s1 = Some h" and cfg: "get_connection_string env = Inr cs" by blast
  have again: "get_connection drv env s1 = (Inr h, s2)"
    by (rule get_connection_alive [OF stored cfg alive])
  from probe_Inr [OF alive] obtain c where
    c: "conn s2 = conn s1" "trace s2 = trace s1 @ probe_ok h c"
    unfolding probe_ok_def by blast
  from again stored c show ?thesis by auto
qed

theorem get_connection_reuses_witness:
  "fst (get_connection demo demo_env fresh) = Inr 0 \<and>
   fst (get_connection demo demo_env (snd (get_connection demo demo_env fresh))) = Inr 0 \<and>
   connects (drop (length (trace (snd (get_connection demo demo_env fresh))))
     (trace (snd (get_connection demo demo_env (snd (get_connection demo demo_env fresh)))))) = []"
proof -
  let ?s1 = "snd (get_connection demo demo_env fresh)"
  let ?s2 = "snd (probe demo 0 ?s1)"
  have first: "get_connection demo demo_env fresh = (Inr 0, ?s1)"
    by code_simp
  have alive: "probe demo 0 ?s1 = (Inr (), ?s2)"
    by code_simp
  from get_connection_reuses [OF first alive] have
    again: "get_connection demo demo_env ?s1 = (Inr 0, ?s2)" and
    quiet: "connects (drop (length (trace ?s1)) (trace ?s2)) = []"
    by blast+
  have f1: "fst (get_connection demo demo_env fresh) = Inr 0"
    using first by (metis fst_conv)
  have f2: "fst (get_connection demo demo_env ?s1) = Inr 0"
    by (simp add: again)
  have s2: "snd (get_connection demo demo_env ?s1) = ?s2"
    by (simp add: again)
  show ?thesis
    unfolding s2 using f1 f2 quiet by (intro conjI)
qed

section \<open>The tool call\<close>

text \<open>
  C3. When the tool name is the configured one and the query is not empty, \<open>call_tool\<close>
  always returns a value and never raises. Every exception of the body of its \<open>try\<close>
  is returned as the text \<open>Error executing query: \<close> followed by the message; in
  particular an exception of the statement submission (\<open>execute\<close>), of the row fetch
  (\<open>fetchall\<close>, on either path that fetches) and of the commit.
\<close>

theorem call_tool_catches:
  assumes valid: "name = get_command env" "arguments ''query'' = Some q" "q \<noteq> []"
  shows "(\<exists>out s'. call_tool drv env name arguments s = (Inr out, s')) \<and>
         (\<forall>e s'. call_tool_body drv env q s = (Inl e, s') \<longrightarrow>
            call_tool drv env name arguments s =
              (Inr [TextContent ''text'' (''Error executing query: '' @ str_exn e)], s')) \<and>
         (\<forall>h s1 c s2 e s3.
            get_connection drv env s = (Inr h, s1) \<and> cursor drv h s1 = (Inr c, s2) \<and>
            execute drv c q s2 = (Inl e, s3) \<longrightarrow>
            call_tool drv env name arguments s =
              (Inr [TextContent ''text'' (''Error executing query: '' @ str_exn e)], s3)) \<and>
         (\<forall>h s1 c s2 s3 e s4.
            get_connection drv env s = (Inr h, s1) \<and> cursor drv h s1 = (Inr c, s2) \<and>
            execute drv c q s2 = (Inr (), s3) \<and> is_select_query q \<and>
            (str_contains ''INFORMATION_SCHEMA.TABLES'' (str_upper q) \<or>
             (\<exists>columns. columns_of drv c s3 = (Inr columns, s3))) \<and>
            fetchall drv c s3 = (Inl e, s4) \<longrightarrow>
            call_tool drv env name arguments s =
              (Inr [TextContent ''text'' (''Error executing query: '' @ str_exn e)], s4)) \<and>
         (\<forall>h s1 c s2 s3 e s4.
            get_connection drv env s = (Inr h, s1) \<and> cursor drv h s1 = (Inr c, s2) \<and>
            execute drv c q s2 = (Inr (), s3) \<and> \<not> is_select_query q \<and>
            commit drv h s3 = (Inl e, s4) \<longrightarrow>
            call_tool drv env name arguments s =
              (Inr [TextContent ''text'' (''Error executing query: '' @ str_exn e)], s4))"
proof -
  have ct: "call_tool drv env name arguments =
      try_except (call_tool_body drv env q)
        (\<lambda>e. ret [TextContent ''text'' (''Error executing query: '' @ str_exn e)])"
    using valid by (rule call_tool_valid)
  have caught: "call_tool drv env name arguments s =
      (Inr [TextContent ''text'' (''Error executing query: '' @ str_exn e)], s')"
    if "call_tool_body drv env q s = (Inl e, s')" for e s'
    using that by (simp add: ct try_except_def ret_def)
  have 1: "\<exists>out s'. call_tool drv env name arguments s = (Inr out, s')"
    unfolding ct by (rule try_except_value)
  show ?thesis
  proof (intro conjI allI impI)
    show "\<exists>out s'. call_tool drv env name arguments s = (Inr out, s')" by (rule 1)
  next
    fix e s' assume "call_tool_body drv env q s = (Inl e, s')"
    then show "call_tool drv env name arguments s =
        (Inr [TextContent ''text'' (''Error executing query: '' @ str_exn e)], s')"
      by (rule caught)
  next
    fix h s1 c s2 e s3
    assume "get_connection drv env s = (Inr h, s1) \<and> cursor drv h s1 = (Inr c, s2) \<and>
            execute drv c q s2 = (Inl e, s3)"
    then have "call_tool_body drv env q s = (Inl e, s3)"
      by (blast intro: call_tool_body_execute_fails)
    then show "call_tool drv env name arguments s =
        (Inr [TextContent ''text'' (''Error executing query: '' @ str_exn e)], s3)"
      by (rule caught)
  next
    fix h s1 c s2 s3 e s4
    assume "get_connection drv env s = (Inr h, s1) \<and> cursor drv h s1 = (Inr c, s2) \<and>
            execute drv c q s2 = (Inr (), s3) \<and> is_select_query q \<and>
            (str_contains ''INFORMATION_SCHEMA.TABLES'' (str_upper q) \<or>
             (\<exists>columns. columns_of drv c s3 = (Inr columns, s3))) \<and>
            fetchall drv c s3 = (Inl e, s4)"
    then have "call_tool_body drv env q s = (Inl e, s4)"
      by (elim conjE) (rule call_tool_body_fetch_fails)
    then show "call_tool drv env name arguments s =
        (Inr [TextContent ''text'' (''Error executing query: '' @ str_exn e)], s4)"
      by (rule caught)
  next
    fix h s1 c s2 s3 e s4
    assume "get_connection drv env s = (Inr h, s1) \<and> cursor drv h s1 = (Inr c, s2) \<and>
            execute drv c q s2 = (Inr (), s3) \<and> \<not> is_select_query q \<and>
            commit drv h s3 = (Inl e, s4)"
    then have "call_tool_body drv env q s = (Inl e, s4)"
      by (elim conjE) (rule call_tool_body_commit_fails)
    then show "call_tool drv env name arguments s =
        (Inr [TextContent ''text'' (''Error executing query: '' @ str_exn e)], s4)"
      by (rule caught)
  qed
qed

theorem call_tool_catches_witness:
  "fst (call_tool demo demo_env ''execute_sql'' (query_args ''SELECT * FROM Nope'') connected) =
     Inr [TextContent ''text'' ''Error executing query: Invalid object name'']"
proof -
  let ?q = "''SELECT * FROM Nope''"
  let ?s' = "snd (call_tool_body demo demo_env ?q connected)"
  have ne: "?q \<noteq> []" by simp
  have body: "call_tool_body demo demo_env ?q connected =
      (Inl (DriverError ''Invalid object name''), ?s')"
    by code_simp
  have "call_tool demo demo_env ''execute_sql'' (query_args ?q) connected =
      (Inr [TextContent ''text''
         (''Error executing query: '' @ str_exn (DriverError ''Invalid object name''))], ?s')"
    by (rule call_tool_catches [where arguments = "query_args ?q" and q = ?q and drv = demo
          and s = connected, OF demo_valid(1) demo_valid(2) ne,
          THEN conjunct2, THEN conjunct1, rule_format, OF body])
  then show ?thesis by simp
qed

text \<open>
  C4, as stated: every statement classified as read-only that runs without error is
  answered with the column names and the rows. It fails for a statement whose text
  mentions \<open>INFORMATION_SCHEMA.TABLES\<close>: the source answers with the fixed header
  \<open>Tables_found\<close> and the first cell of each row, by a branch written for table
  listings.
\<close>

theorem call_tool_table_listing_counterexample:
  "is_select_query tables_query \<and>
   demo_result tables_query =
     Some ([''TABLE_NAME'', ''TABLE_TYPE''],
           [[StrCell ''Users'', StrCell ''BASE TABLE''],
            [StrCell ''Orders'', StrCell ''BASE TABLE'']]) \<and>
   fst (call_tool demo demo_env ''execute_sql'' (query_args tables_query) fresh) =
     Inr [TextContent ''text'' (''Tables_found'' @ [LF] @ ''Users'' @ [LF] @ ''Orders'')] \<and>
   render_rows [''TABLE_NAME'', ''TABLE_TYPE'']
     [[StrCell ''Users'', StrCell ''BASE TABLE''], [StrCell ''Orders'', StrCell ''BASE TABLE'']] =
     ''TABLE_NAME,TABLE_TYPE'' @ [LF] @ ''Users,BASE TABLE'' @ [LF] @ ''Orders,BASE TABLE'' \<and>
   fst (call_tool demo demo_env ''execute_sql'' (query_args tables_query) fresh) \<noteq>
     Inr [TextContent ''text''
       (render_rows [''TABLE_NAME'', ''TABLE_TYPE'']
          [[StrCell ''Users'', StrCell ''BASE TABLE''],
           [StrCell ''Orders'', StrCell ''BASE TABLE'']])]"
  by code_simp

text \<open>
  C4, amended. For a statement classified as read-only whose upper-cased text does not
  contain \<open>INFORMATION_SCHEMA.TABLES\<close> and whose run raises nothing, the run is:
  obtain the connection, open a cursor, execute the statement, read the column names
  that the engine reports at that point, fetch all rows from the same cursor, close the
  cursor. The answer is one text: those column names joined by commas, then one line for
  every row fetched, its cells turned into strings and joined by commas.
\<close>

theorem call_tool_select:
  assumes valid: "name = get_command env" "arguments ''query'' = Some q" "q \<noteq> []"
    and readonly: "is_select_query q"
    and plain: "\<not> str_contains ''INFORMATION_SCHEMA.TABLES'' (str_upper q)"
    and success: "call_tool_body drv env q s = (Inr out, s')"
  shows "call_tool drv env name arguments s = (Inr out, s') \<and>
         (\<exists>h s1 c s2 s3 columns rows s4.
            get_connection drv env s = (Inr h, s1) \<and>
            cursor drv h s1 = (Inr c, s2) \<and>
            execute drv c q s2 = (Inr (), s3) \<and>
            cur_description drv c (world s3) = Some columns \<and>
            fetchall drv c s3 = (Inr rows, s4) \<and>
            cursor_close drv c s4 = (Inr (), s') \<and>
            out = [TextContent ''text''
                     (str_join [LF] (str_join '','' columns
                        # map (\<lambda>row. str_join '','' (map str_cell row)) rows))])"
proof -
  have ct: "call_tool drv env name arguments =
      try_except (call_tool_body drv env q)
        (\<lambda>e. ret [TextContent ''text'' (''Error executing query: '' @ str_exn e)])"
    using valid by (rule call_tool_valid)
  have 1: "call_tool drv env name arguments s = (Inr out, s')"
    unfolding ct using success by (rule try_except_returns)
  from success readonly plain obtain h s1 c s2 s3 columns s3' rows s4 where
    run: "get_connection drv env s = (Inr h, s1)" "cursor drv h s1 = (Inr c, s2)"
      "execute drv c q s2 = (Inr (), s3)" "columns_of drv c s3 = (Inr columns, s3')"
      "fetchall drv c s3' = (Inr rows, s4)" "cursor_close drv c s4 = (Inr (), s')"
    and out: "out = [TextContent ''text'' (render_rows columns rows)]"
    unfolding call_tool_body_def by (auto simp: bnd_Inr)
  from columns_of_Inr [OF run(4)] have
    d: "s3' = s3" "cur_description drv c (world s3) = Some columns" by simp_all
  have "get_connection drv env s = (Inr h, s1) \<and>
        cursor drv h s1 = (Inr c, s2) \<and>
        execute drv c q s2 = (Inr (), s3) \<and>
        cur_description drv c (world s3) = Some columns \<and>
        fetchall drv c s3 = (Inr rows, s4) \<and>
        cursor_close drv c s4 = (Inr (), s') \<and>
        out = [TextContent ''text''
                 (str_join [LF] (str_join '','' columns
                    # map (\<lambda>row. str_join '','' (map str_cell row)) rows))]"
    using run d out by (simp add: render_rows_def)
  then have "\<exists>h s1 c s2 s3 columns rows s4.
        get_connection drv env s = (Inr h, s1) \<and>
        cursor drv h s1 = (Inr c, s2) \<and>
        execute drv c q s2 = (Inr (), s3) \<and>
        cur_description drv c (world s3) = Some columns \<and>
        fetchall drv c s3 = (Inr rows, s4) \<and>
        cursor_close drv c s4 = (Inr (), s') \<and>
        out = [TextContent ''text''
                 (str_join [LF] (str_join '','' columns
                    # map (\<lambda>row. str_join '','' (map str_cell row)) rows))]"
    by (intro exI)
  with 1 show ?thesis by (rule conjI)
qed

theorem call_tool_select_witness:
  "is_select_query ''SELECT * FROM Users'' \<and>
   fst (call_tool demo demo_env ''execute_sql'' (query_args ''SELECT * FROM Users'') fresh) =
     Inr [TextContent ''text'' (''Id,Name'' @ [LF] @ ''1,Alice'' @ [LF] @ ''2,Bob'')]"
proof -
  let ?q = "''SELECT * FROM Users''"
  let ?out = "[TextContent ''text'' (''Id,Name'' @ [LF] @ ''1,Alice'' @ [LF] @ ''2,Bob'')]"
  let ?s' = "snd (call_tool_body demo demo_env ?q fresh)"
  have ne: "?q \<noteq> []" by simp
  have sel: "is_select_query ?q" by code_simp
  have plain: "\<not> str_contains ''INFORMATION_SCHEMA.TABLES'' (str_upper ?q)" by code_simp
  have body: "call_tool_body demo demo_env ?q fresh = (Inr ?out, ?s')"
    by code_simp
  from call_tool_select [where arguments = "query_args ?q" and q = ?q,
      OF demo_valid(1) demo_valid(2) ne sel plain body]
  have "call_tool demo demo_env ''execute_sql'' (query_args ?q) fresh = (Inr ?out, ?s')"
    by (rule conjunct1)
  with sel show ?thesis by simp
qed

text \<open>
  C6. For a statement that is not classified as read-only and whose run raises nothing,
  the run is: obtain the connection, open a cursor, execute the statement, commit on
  that connection, close the cursor. The answer is the text
  \<open>Query executed successfully. Rows affected: N\<close>, where \<open>N\<close> is the row count
  that the engine reports for that cursor in the state reached by the commit.
\<close>

theorem call_tool_mutating:
  assumes valid: "name = get_command env" "arguments ''query'' = Some q" "q \<noteq> []"
    and mutating: "\<not> is_select_query q"
    and success: "call_tool_body drv env q s = (Inr out, s')"
  shows "call_tool drv env name arguments s = (Inr out, s') \<and>
         (\<exists>h s1 c s2 s3 s4.
            get_connection drv env s = (Inr h, s1) \<and>
            cursor drv h s1 = (Inr c, s2) \<and>
            execute drv c q s2 = (Inr (), s3) \<and>
            commit drv h s3 = (Inr (), s4) \<and>
            cursor_close drv c s4 = (Inr (), s') \<and>
            conn s' = Some h \<and>
            trace s' = trace s1 @ [Cursor h True, Execute c q True, Commit h True,
                                   CursorClose c True] \<and>
            out = [TextContent ''text''
                     (''Query executed successfully. Rows affected: ''
                      @ str_int (cur_rowcount drv c (world s4)))])"
proof -
  have ct: "call_tool drv env name arguments =
      try_except (call_tool_body drv env q)
        (\<lambda>e. ret [TextContent ''text'' (''Error executing query: '' @ str_exn e)])"
    using valid by (rule call_tool_valid)
  have 1: "call_tool drv env name arguments s = (Inr out, s')"
    unfolding ct using success by (rule try_except_returns)
  from success mutating obtain h s1 c s2 s3 s4 where
    run: "get_connection drv env s = (Inr h, s1)" "cursor drv h s1 = (Inr c, s2)"
      "execute drv c q s2 = (Inr (), s3)" "commit drv h s3 = (Inr (), s4)"
      "cursor_close drv c s4 = (Inr (), s')"
    and out: "out = [TextContent ''text''
                     (''Query executed successfully. Rows affected: ''
                      @ str_int (cur_rowcount drv c (world s4)))]"
    unfolding call_tool_body_def by (auto simp: bnd_Inr rowcount_eq)
  from get_connection_Inr [OF run(1)] have c1: "conn s1 = Some h" by simp
  from steps(2) [OF run(2)] have c2: "conn s2 = conn s1" "trace s2 = trace s1 @ [Cursor h True]"
    by simp_all
  from steps(5) [OF run(3)] have c3: "conn s3 = conn s2" "trace s3 = trace s2 @ [Execute c q True]"
    by simp_all
  from steps(3) [OF run(4)] have c4: "conn s4 = conn s3" "trace s4 = trace s3 @ [Commit h True]"
    by simp_all
  from steps(7) [OF run(5)] have c5: "conn s' = conn s4" "trace s' = trace s4 @ [CursorClose c True]"
    by simp_all
  have "get_connection drv env s = (Inr h, s1) \<and>
        cursor drv h s1 = (Inr c, s2) \<and>
        execute drv c q s2 = (Inr (), s3) \<and>
        commit drv h s3 = (Inr (), s4) \<and>
        cursor_close drv c s4 = (Inr (), s') \<and>
        conn s' = Some h \<and>
        trace s' = trace s1 @ [Cursor h True, Execute c q True, Commit h True,
                               CursorClose c True] \<and>
        out = [TextContent ''text''
                 (''Query executed successfully. Rows affected: ''
                  @ str_int (cur_rowcount drv c (world s4)))]"
    using run out c1 c2 c3 c4 c5 by simp
  then have "\<exists>h s1 c s2 s3 s4.
        get_connection drv env s = (Inr h, s1) \<and>
        cursor drv h s1 = (Inr c, s2) \<and>
        execute drv c q s2 = (Inr (), s3) \<and>
        commit drv h s3 = (Inr (), s4) \<and>
        cursor_close drv c s4 = (Inr (), s') \<and>
        conn s' = Some h \<and>
        trace s' = trace s1 @ [Cursor h True, Execute c q True, Commit h True,
                               CursorClose c True] \<and>
        out = [TextContent ''text''
                 (''Query executed successfully. Rows affected: ''
                  @ str_int (cur_rowcount drv c (world s4)))]"
    by (intro exI)
  with 1 show ?thesis by (rule conjI)
qed

theorem call_tool_mutating_witness:
  "\<not> is_select_query ''DELETE FROM Users WHERE Id=1'' \<and>
   fst (call_tool demo demo_env ''execute_sql'' (query_args ''DELETE FROM Users WHERE Id=1'')
     connected) =
     Inr [TextContent ''text'' ''Query executed successfully. Rows affected: 1'']"
proof -
  let ?q = "''DELETE FROM Users WHERE Id=1''"
  let ?out = "[TextContent ''text'' ''Query executed successfully. Rows affected: 1'']"
  let ?s' = "snd (call_tool_body demo demo_env ?q connected)"
  have ne: "?q \<noteq> []" by simp
  have mut: "\<not> is_select_query ?q" by code_simp
  have body: "call_tool_body demo demo_env ?q connected = (Inr ?out, ?s')"
    by code_simp
  from call_tool_mutating [where arguments = "query_args ?q" and q = ?q,
      OF demo_valid(1) demo_valid(2) ne mut body]
  have "call_tool demo demo_env ''execute_sql'' (query_args ?q) connected = (Inr ?out, ?s')"
    by (rule conjunct1)
  with mut show ?thesis by simp
qed

section \<open>The resources\<close>

text \<open>
  C9. \<open>list_resources\<close> always returns a list and never raises. Whenever the body of
  its \<open>try\<close> raises, the list is empty; in particular when no connection can be
  obtained and when the catalog query fails. When nothing raises, the run is: obtain the
  connection, open a cursor, execute the catalog query, fetch all rows from that cursor,
  close the cursor; and the result has one resource for each row fetched there, in
  order, each built from that row.
\<close>

theorem list_resources_total:
  "(\<exists>rs s'. list_resources drv env s = (Inr rs, s')) \<and>
   (\<forall>e s'. list_resources_body drv env s = (Inl e, s') \<longrightarrow>
      list_resources drv env s = (Inr [], s')) \<and>
   (\<forall>e s1. get_connection drv env s = (Inl e, s1) \<longrightarrow>
      list_resources drv env s = (Inr [], s1)) \<and>
   (\<forall>h s1 c s2 e s3.
      get_connection drv env s = (Inr h, s1) \<and> cursor drv h s1 = (Inr c, s2) \<and>
      execute drv c catalog_query s2 = (Inl e, s3) \<longrightarrow>
      list_resources drv env s = (Inr [], s3)) \<and>
   (\<forall>rs s'. list_resources_body drv env s = (Inr rs, s') \<longrightarrow>
      list_resources drv env s = (Inr rs, s') \<and>
      (\<exists>h s1 c s2 s3 tables s4.
         get_connection drv env s = (Inr h, s1) \<and>
         cursor drv h s1 = (Inr c, s2) \<and>
         execute drv c catalog_query s2 = (Inr (), s3) \<and>
         fetchall drv c s3 = (Inr tables, s4) \<and>
         cursor_close drv c s4 = (Inr (), s') \<and>
         list_all2 (\<lambda>table r. make_resource drv table = Inr r) tables rs))"
proof (intro conjI allI impI)
  show "\<exists>rs s'. list_resources drv env s = (Inr rs, s')"
    unfolding list_resources_def by (rule try_except_value)
next
  fix e s' assume "list_resources_body drv env s = (Inl e, s')"
  then show "list_resources drv env s = (Inr [], s')" by (rule list_resources_caught)
next
  fix e s1 assume "get_connection drv env s = (Inl e, s1)"
  then have "list_resources_body drv env s = (Inl e, s1)"
    by (rule list_resources_body_connect_fails)
  then show "list_resources drv env s = (Inr [], s1)" by (rule list_resources_caught)
next
  fix h s1 c s2 e s3
  assume "get_connection drv env s = (Inr h, s1) \<and> cursor drv h s1 = (Inr c, s2) \<and>
      execute drv c catalog_query s2 = (Inl e, s3)"
  then have "list_resources_body drv env s = (Inl e, s3)"
    by (elim conjE) (rule list_resources_body_query_fails)
  then show "list_resources drv env s = (Inr [], s3)" by (rule list_resources_caught)
next
  fix rs s' assume "list_resources_body drv env s = (Inr rs, s')"
  then show "list_resources drv env s = (Inr rs, s')"
    unfolding list_resources_def by (rule try_except_returns)
next
  fix rs s' assume "list_resources_body drv env s = (Inr rs, s')"
  then show "\<exists>h s1 c s2 s3 tables s4.
         get_connection drv env s = (Inr h, s1) \<and>
         cursor drv h s1 = (Inr c, s2) \<and>
         execute drv c catalog_query s2 = (Inr (), s3) \<and>
         fetchall drv c s3 = (Inr tables, s4) \<and>
         cursor_close drv c s4 = (Inr (), s') \<and>
         list_all2 (\<lambda>table r. make_resource drv table = Inr r) tables rs"
    by (rule list_resources_body_run)
qed

theorem list_resources_total_witness:
  "fst (list_resources demo demo_env offline) = Inr [] \<and>
   fst (list_resources demo demo_env fresh) =
     Inr [Resource ''mssql://Users/data'' ''Table: Users'' ''text/plain'' ''Data in table: Users'',
          Resource ''mssql://Orders/data'' ''Table: Orders'' ''text/plain''
            ''Data in table: Orders'']"
proof -
  let ?s1 = "snd (get_connection demo demo_env offline)"
  have down: "get_connection demo demo_env offline = (Inl (DriverError ''Login timeout expired''), ?s1)"
    by code_simp
  have "list_resources demo demo_env offline = (Inr [], ?s1)"
    by (rule list_resources_total [THEN conjunct2, THEN conjunct2, THEN conjunct1,
          rule_format, OF down])
  moreover have "fst (list_resources demo demo_env fresh) =
     Inr [Resource ''mssql://Users/data'' ''Table: Users'' ''text/plain'' ''Data in table: Users'',
          Resource ''mssql://Orders/data'' ''Table: Orders'' ''text/plain''
            ''Data in table: Orders'']"
    by code_simp
  ultimately show ?thesis by simp
qed



end
